theory Spec2Isabelle
  imports Complex_Main "HOL-Library.Sublist" "HOL-Library.Word"
begin

section \<open>JavaScript numbers\<close>

text \<open>
  A JavaScript number is an IEEE double: a finite value, one of the two infinities, or
  NaN. The finite values are modelled as exact reals, so rounding is not part of the
  model, and the sign of zero is not kept. Every comparison with NaN is false.
\<close>

datatype jsnum = NaN | NegInfinity | Num real | Infinity

fun js_lt :: "jsnum \<Rightarrow> jsnum \<Rightarrow> bool" where
  "js_lt NaN _ = False"
| "js_lt _ NaN = False"
| "js_lt Infinity _ = False"
| "js_lt _ Infinity = True"
| "js_lt _ NegInfinity = False"
| "js_lt NegInfinity (Num b) = True"
| "js_lt (Num a) (Num b) = (a < b)"

definition js_gt :: "jsnum \<Rightarrow> jsnum \<Rightarrow> bool" where
  "js_gt a b = js_lt b a"

fun js_neg :: "jsnum \<Rightarrow> jsnum" where
  "js_neg NaN = NaN"
| "js_neg NegInfinity = Infinity"
| "js_neg (Num a) = Num (- a)"
| "js_neg Infinity = NegInfinity"

fun js_add :: "jsnum \<Rightarrow> jsnum \<Rightarrow> jsnum" where
  "js_add NaN _ = NaN"
| "js_add _ NaN = NaN"
| "js_add (Num a) (Num b) = Num (a + b)"
| "js_add Infinity NegInfinity = NaN"
| "js_add NegInfinity Infinity = NaN"
| "js_add Infinity _ = Infinity"
| "js_add _ Infinity = Infinity"
| "js_add NegInfinity _ = NegInfinity"
| "js_add _ NegInfinity = NegInfinity"

definition js_sub :: "jsnum \<Rightarrow> jsnum \<Rightarrow> jsnum" where
  "js_sub a b = js_add a (js_neg b)"

fun js_mul :: "jsnum \<Rightarrow> jsnum \<Rightarrow> jsnum" where
  "js_mul NaN _ = NaN"
| "js_mul _ NaN = NaN"
| "js_mul (Num a) (Num b) = Num (a * b)"
| "js_mul (Num a) x = (if a = 0 then NaN else if 0 < a then x else js_neg x)"
| "js_mul x (Num b) = (if b = 0 then NaN else if 0 < b then x else js_neg x)"
| "js_mul Infinity x = x"
| "js_mul NegInfinity x = js_neg x"

text \<open>Division never throws: \<^verbatim>\<open>0 / 0\<close> is NaN, and a zero divisor counts as \<open>+0\<close>.\<close>

fun js_div :: "jsnum \<Rightarrow> jsnum \<Rightarrow> jsnum" where
  "js_div NaN _ = NaN"
| "js_div _ NaN = NaN"
| "js_div (Num a) (Num b) =
     (if b = 0 then (if a = 0 then NaN else if 0 < a then Infinity else NegInfinity)
      else Num (a / b))"
| "js_div (Num a) _ = Num 0"
| "js_div x (Num b) = (if 0 \<le> b then x else js_neg x)"
| "js_div _ _ = NaN"

text \<open>\<^verbatim>\<open>Math.sqrt(x)\<close> and \<^verbatim>\<open>Math.pow(x, 2)\<close>.\<close>

fun js_sqrt :: "jsnum \<Rightarrow> jsnum" where
  "js_sqrt NaN = NaN"
| "js_sqrt NegInfinity = NaN"
| "js_sqrt (Num a) = (if a < 0 then NaN else Num (sqrt a))"
| "js_sqrt Infinity = Infinity"

fun js_pow2 :: "jsnum \<Rightarrow> jsnum" where
  "js_pow2 NaN = NaN"
| "js_pow2 (Num a) = Num (a\<^sup>2)"
| "js_pow2 _ = Infinity"

section \<open>JavaScript strings\<close>

text \<open>
  A string is a sequence of UTF-16 code units, and \<^verbatim>\<open>length\<close> counts them.
  \<open>js\<close> writes an ASCII literal as such a sequence.
\<close>

type_synonym jschar = "16 word"
type_synonym jsstring = "jschar list"

definition js :: "string \<Rightarrow> jsstring" where
  "js s = map of_char s"

text \<open>
  The characters that \<^verbatim>\<open>\s\<close> matches and \<^verbatim>\<open>trim()\<close> removes (white space and
  line terminators), and the characters that \<^verbatim>\<open>\w\<close> matches.
\<close>

definition is_space :: "jschar \<Rightarrow> bool" where
  "is_space c \<longleftrightarrow>
     c \<in> {0x9, 0xA, 0xB, 0xC, 0xD, 0x20, 0xA0, 0x1680, 0x2028, 0x2029, 0x202F, 0x205F,
          0x3000, 0xFEFF} \<or> (0x2000 \<le> c \<and> c \<le> 0x200A)"

definition is_word :: "jschar \<Rightarrow> bool" where
  "is_word c \<longleftrightarrow>
     (0x41 \<le> c \<and> c \<le> 0x5A) \<or> (0x61 \<le> c \<and> c \<le> 0x7A) \<or>
     (0x30 \<le> c \<and> c \<le> 0x39) \<or> c = 0x5F"

text \<open>The characters outside \<^verbatim>\<open>[^\w\s.,?!-]\<close>, which the last replace keeps.\<close>

definition kept :: "jschar \<Rightarrow> bool" where
  "kept c \<longleftrightarrow> is_word c \<or> is_space c \<or> c \<in> {0x2E, 0x2C, 0x3F, 0x21, 0x2D}"

definition js_trim :: "jsstring \<Rightarrow> jsstring" where
  "js_trim s = rev (dropWhile is_space (rev (dropWhile is_space s)))"

text \<open>\<^verbatim>\<open>.replace(/\s+/g, ' ')\<close>: every maximal run of white space becomes one space.\<close>

function collapse :: "jsstring \<Rightarrow> jsstring" where
  "collapse [] = []"
| "collapse (c # cs) =
     (if is_space c then 0x20 # collapse (dropWhile is_space cs) else c # collapse cs)"
  by pat_completeness auto
termination
  by (relation "measure length") (auto simp: length_dropWhile_le less_Suc_eq_le)

text \<open>
  The text cleaning of \<^verbatim>\<open>cleanData\<close>:
  \<^verbatim>\<open>prompt.trim().replace(/\s+/g, ' ').replace(/[^\w\s.,?!-]/g, '')\<close>.
\<close>

definition cleanText :: "jsstring \<Rightarrow> jsstring" where
  "cleanText p = filter kept (collapse (js_trim p))"

section \<open>ModelTrainer\<close>

record training_config =
  learningRate :: real
  weightDecay :: real
  warmupSteps :: nat
  maxSeqLength :: nat
  gradientClipNorm :: real
  validationSplit :: real

text \<open>
  The trainer object: its configuration, set once by the constructor, and the learning
  rate of the optimizer of its model (\<^verbatim>\<open>this.model.optimizer.learningRate\<close>).
\<close>

record model_trainer =
  trainingConfig :: training_config
  optimizerLR :: real

definition defaultConfig :: training_config where
  "defaultConfig =
     \<lparr> learningRate = 1 / 100000, weightDecay = 1 / 100, warmupSteps = 500,
       maxSeqLength = 1024, gradientClipNorm = 1, validationSplit = 1 / 10 \<rparr>"

text \<open>
  \<^verbatim>\<open>adjustLearningRate(epoch, validationLoss)\<close>: the second argument is not read.
  The epoch is the loop counter, an integer, so \<^verbatim>\<open>Math.floor(epoch / 2)\<close> is
  \<open>epoch div 2\<close>.
\<close>

definition adjustLearningRate :: "model_trainer \<Rightarrow> nat \<Rightarrow> jsnum \<Rightarrow> model_trainer" where
  "adjustLearningRate this epoch validationLoss =
     (if epoch > warmupSteps (trainingConfig this)
      then (let newLR = learningRate (trainingConfig this) * (95 / 100) ^ (epoch div 2)
            in this\<lparr>optimizerLR := newLR\<rparr>)
      else this)"

text \<open>
  What the outside world answers in one epoch: the validation loss that
  \<^verbatim>\<open>validateEpoch\<close> returns (\<open>None\<close> when \<^verbatim>\<open>trainEpoch\<close> or
  \<^verbatim>\<open>validateEpoch\<close> throws), and whether \<^verbatim>\<open>saveCheckpoint\<close>, if called,
  completes.
\<close>

record epoch_io =
  validLoss :: "jsnum option"
  saveOk :: bool

datatype outcome = Completed | EarlyStopped | Thrown

text \<open>
  The local variables of \<^verbatim>\<open>trainingLoop\<close>, the trainer, the epochs whose checkpoint
  was written, and the last epoch whose body was entered. The result of the loop says
  how it ended: all epochs ran, the \<^verbatim>\<open>break\<close> of early stopping was taken, or an
  exception of \<^verbatim>\<open>trainEpoch\<close>, \<^verbatim>\<open>validateEpoch\<close> or \<^verbatim>\<open>saveCheckpoint\<close> left the
  loop (the \<^verbatim>\<open>catch\<close> logs it and throws it again). \<open>epochs\<close> is the parsed option; a
  value that is not a positive integer runs no epoch, as 0 does.
\<close>

record loop_state =
  bestLoss :: jsnum
  patienceCount :: nat
  trainer :: model_trainer
  checkpoints :: "nat list"
  epochsRun :: nat

definition maxPatience :: nat where
  "maxPatience = 3"

function trainingLoop_from ::
  "(nat \<Rightarrow> epoch_io) \<Rightarrow> nat \<Rightarrow> nat \<Rightarrow> loop_state \<Rightarrow> outcome \<times> loop_state" where
  "trainingLoop_from io epochs epoch st =
     (if epoch \<le> epochs then
        (let st0 = st\<lparr>epochsRun := epoch\<rparr> in
         case validLoss (io epoch) of
           None \<Rightarrow> (Thrown, st0)
         | Some loss \<Rightarrow>
             if js_lt loss (bestLoss st0) then
               (let st1 = st0\<lparr>bestLoss := loss, patienceCount := 0\<rparr> in
                if saveOk (io epoch) then
                  trainingLoop_from io epochs (Suc epoch)
                    (st1\<lparr>checkpoints := checkpoints st1 @ [epoch],
                         trainer := adjustLearningRate (trainer st1) epoch loss\<rparr>)
                else (Thrown, st1))
             else
               (let st1 = st0\<lparr>patienceCount := patienceCount st0 + 1\<rparr> in
                if patienceCount st1 \<ge> maxPatience then (EarlyStopped, st1)
                else trainingLoop_from io epochs (Suc epoch)
                       (st1\<lparr>trainer := adjustLearningRate (trainer st1) epoch loss\<rparr>)))
      else (Completed, st))"
  by pat_completeness auto
termination
  by (relation "measure (\<lambda>(io, epochs, epoch, st). Suc epochs - epoch)") auto

definition trainingLoop :: "model_trainer \<Rightarrow> (nat \<Rightarrow> epoch_io) \<Rightarrow> nat \<Rightarrow> outcome \<times> loop_state" where
  "trainingLoop this io epochs =
     trainingLoop_from io epochs 1
       \<lparr> bestLoss = Infinity, patienceCount = 0, trainer = this, checkpoints = [],
         epochsRun = 0 \<rparr>"

declare trainingLoop_from.simps [simp del]

section \<open>DataProcessor\<close>

text \<open>
  The records of the pipeline are objects with a \<^verbatim>\<open>prompt\<close> property, a string,
  which may be missing (\<open>None\<close>). A raw record, as parsed from the input file, also has
  optional \<^verbatim>\<open>input\<close> and \<^verbatim>\<open>output\<close> properties; a response record has the generated
  \<^verbatim>\<open>response\<close>, a string.
\<close>

record prompt_object =
  prompt :: "jsstring option"

record raw_record = prompt_object +
  input' :: "jsstring option"
  output' :: "jsstring option"

record response_record = prompt_object +
  response :: jsstring

subsection \<open>cleanData\<close>

text \<open>
  The callback of the filter in \<^verbatim>\<open>cleanData\<close>, for one item: whether the item is
  kept, and the item as the callback leaves it (it assigns the cleaned text to
  \<^verbatim>\<open>item.prompt\<close>). \<open>processedData\<close> is \<^verbatim>\<open>this.processedData\<close>: empty after the
  constructor, and assigned by \<^verbatim>\<open>saveProcessedData\<close> only.
  \<^verbatim>\<open>!item.prompt\<close> holds for a missing prompt and for the empty string.
\<close>

definition cleanItem :: "'a prompt_object_scheme list \<Rightarrow> raw_record \<Rightarrow> bool \<times> raw_record" where
  "cleanItem processedData item =
     (case prompt item of
        None \<Rightarrow> (False, item)
      | Some p \<Rightarrow>
          if p = [] \<or> length p < 10 then (False, item)
          else if list_ex (\<lambda>processed. prompt processed = Some p) processedData
          then (False, item)
          else (True, item\<lparr>prompt := Some (cleanText p)\<rparr>))"

text \<open>
  \<^verbatim>\<open>cleanData(data)\<close> on a list of distinct objects: the items kept, as they are when
  the call returns.
\<close>

definition cleanData :: "'a prompt_object_scheme list \<Rightarrow> raw_record list \<Rightarrow> raw_record list" where
  "cleanData processedData data = map snd (filter fst (map (cleanItem processedData) data))"

text \<open>
  The same function on a store of objects: \<open>data\<close> is a list of references, the
  callback writes to the object it is given, and the result is the store after the call
  with the references kept.
\<close>

type_synonym store = "nat \<Rightarrow> raw_record"

fun cleanData_store ::
  "'a prompt_object_scheme list \<Rightarrow> store \<Rightarrow> nat list \<Rightarrow> store \<times> nat list" where
  "cleanData_store processedData h [] = (h, [])"
| "cleanData_store processedData h (a # as) =
     (case cleanItem processedData (h a) of
        (keep, item) \<Rightarrow>
          (case cleanData_store processedData (h(a := item)) as of
             (h', out) \<Rightarrow> (h', if keep then a # out else out)))"

subsection \<open>getGPT4Responses\<close>

text \<open>
  \<open>api k\<close> is the outcome of the request made for \<open>data[k]\<close>: the content of the
  completion, or \<open>None\<close> when anything inside the \<^verbatim>\<open>try\<close> block throws (the callback then
  returns \<^verbatim>\<open>null\<close>). \<^verbatim>\<open>Promise.all\<close> keeps the order of the batch. The delay between
  batches is not modelled.
\<close>

definition batchSize :: nat where
  "batchSize = 5"

function getGPT4Responses_from ::
  "(nat \<Rightarrow> jsstring option) \<Rightarrow> 'a prompt_object_scheme list \<Rightarrow> nat \<Rightarrow>
   response_record list \<Rightarrow> response_record list" where
  "getGPT4Responses_from api data i responses =
     (if i < length data then
        (let batch = take batchSize (drop i data);
             batchResponses =
               map (\<lambda>(j, item).
                      map_option (\<lambda>content. \<lparr> prompt = prompt item, response = content \<rparr>)
                        (api (i + j)))
                 (enumerate 0 batch)
         in getGPT4Responses_from api data (i + batchSize)
              (responses @ map the (filter (\<lambda>r. r \<noteq> None) batchResponses)))
      else responses)"
  by pat_completeness auto
termination
  by (relation "measure (\<lambda>(api, data, i, responses). length data - i)")
     (auto simp: batchSize_def)

declare getGPT4Responses_from.simps [simp del]

definition getGPT4Responses ::
  "(nat \<Rightarrow> jsstring option) \<Rightarrow> 'a prompt_object_scheme list \<Rightarrow> response_record list" where
  "getGPT4Responses api data = getGPT4Responses_from api data 0 []"

text \<open>The response record built from \<open>data[k]\<close> and the content returned for it.\<close>

definition responseOf :: "(nat \<Rightarrow> jsstring option) \<Rightarrow> 'a prompt_object_scheme list \<Rightarrow> nat \<Rightarrow> response_record" where
  "responseOf api data k = \<lparr> prompt = prompt (data ! k), response = the (api k) \<rparr>"

subsection \<open>balanceDataset\<close>

text \<open>
  The mean and the standard deviation are computed with the arithmetic of JavaScript
  numbers, here without rounding: for the empty list both are NaN, and nothing throws.
\<close>

definition responseLengths :: "response_record list \<Rightarrow> jsnum list" where
  "responseLengths data = map (\<lambda>item. Num (real (length (response item)))) data"

definition avgLength :: "jsnum list \<Rightarrow> jsnum" where
  "avgLength ls = js_div (foldl (\<lambda>a b. js_add a b) (Num 0) ls) (Num (real (length ls)))"

definition stdDev :: "jsnum list \<Rightarrow> jsnum" where
  "stdDev ls =
     js_sqrt (js_div (foldl (\<lambda>a b. js_add a (js_pow2 (js_sub b (avgLength ls)))) (Num 0) ls)
                     (Num (real (length ls))))"

definition balanceDataset :: "response_record list \<Rightarrow> response_record list" where
  "balanceDataset data =
     (let ls = responseLengths data; avg = avgLength ls; sd = stdDev ls
      in filter (\<lambda>item.
                  let len = Num (real (length (response item)))
                  in js_gt len (js_sub avg (js_mul (Num 2) sd)) \<and>
                     js_lt len (js_add avg (js_mul (Num 2) sd)))
           data)"

subsection \<open>balanceDataset with the rounding of doubles\<close>

text \<open>
  \<open>balanceDataset\<close> above computes without rounding; it agrees with the source
  wherever every intermediate value is a double, as for the empty list, for responses of
  one length, and for the lengths 10, 10, 10, 10, 100. Here the rounding is a parameter:
  \<open>rnd x\<close> is the double that \<^verbatim>\<open>+\<close>, \<^verbatim>\<open>-\<close>, \<^verbatim>\<open>*\<close>, \<^verbatim>\<open>/\<close> and \<^verbatim>\<open>Math.sqrt\<close> return
  when their exact result is \<open>x\<close> (IEEE 754 rounds these correctly; an overflow gives an
  infinity), and \<open>pow2 x\<close> is what \<^verbatim>\<open>Math.pow(x, 2)\<close> returns, which the language leaves
  to the implementation. The lengths are integers and the comparisons are exact.
\<close>

record arithmetic =
  rnd :: "real \<Rightarrow> jsnum"
  pow2 :: "real \<Rightarrow> jsnum"

definition fl_add :: "arithmetic \<Rightarrow> jsnum \<Rightarrow> jsnum \<Rightarrow> jsnum" where
  "fl_add ar x y = (case (x, y) of (Num a, Num b) \<Rightarrow> rnd ar (a + b) | _ \<Rightarrow> js_add x y)"

definition fl_sub :: "arithmetic \<Rightarrow> jsnum \<Rightarrow> jsnum \<Rightarrow> jsnum" where
  "fl_sub ar x y = (case (x, y) of (Num a, Num b) \<Rightarrow> rnd ar (a - b) | _ \<Rightarrow> js_sub x y)"

definition fl_mul :: "arithmetic \<Rightarrow> jsnum \<Rightarrow> jsnum \<Rightarrow> jsnum" where
  "fl_mul ar x y = (case (x, y) of (Num a, Num b) \<Rightarrow> rnd ar (a * b) | _ \<Rightarrow> js_mul x y)"

definition fl_div :: "arithmetic \<Rightarrow> jsnum \<Rightarrow> jsnum \<Rightarrow> jsnum" where
  "fl_div ar x y =
     (case (x, y) of
        (Num a, Num b) \<Rightarrow> if b = 0 then js_div x y else rnd ar (a / b)
      | _ \<Rightarrow> js_div x y)"

definition fl_sqrt :: "arithmetic \<Rightarrow> jsnum \<Rightarrow> jsnum" where
  "fl_sqrt ar x = (case x of Num a \<Rightarrow> if a < 0 then NaN else rnd ar (sqrt a) | _ \<Rightarrow> js_sqrt x)"

definition fl_pow2 :: "arithmetic \<Rightarrow> jsnum \<Rightarrow> jsnum" where
  "fl_pow2 ar x = (case x of Num a \<Rightarrow> pow2 ar a | _ \<Rightarrow> js_pow2 x)"

definition avgLength_fl :: "arithmetic \<Rightarrow> jsnum list \<Rightarrow> jsnum" where
  "avgLength_fl ar ls =
     fl_div ar (foldl (\<lambda>a b. fl_add ar a b) (Num 0) ls) (Num (real (length ls)))"

definition stdDev_fl :: "arithmetic \<Rightarrow> jsnum list \<Rightarrow> jsnum" where
  "stdDev_fl ar ls =
     fl_sqrt ar
       (fl_div ar
          (foldl (\<lambda>a b. fl_add ar a (fl_pow2 ar (fl_sub ar b (avgLength_fl ar ls)))) (Num 0) ls)
          (Num (real (length ls))))"



definition balanceDataset_fl :: "arithmetic \<Rightarrow> response_record list \<Rightarrow> response_record list" where
  "balanceDataset_fl ar data =
     (let ls = responseLengths data; avg = avgLength_fl ar ls; sd = stdDev_fl ar ls
      in filter (\<lambda>item.
                  let len = Num (real (length (response item)))
                  in js_gt len (fl_sub ar avg (fl_mul ar (Num 2) sd)) \<and>
                     js_lt len (fl_add ar avg (fl_mul ar (Num 2) sd)))
           data)"

text \<open>The arithmetic without rounding.\<close>

definition exact_arithmetic :: arithmetic where
  "exact_arithmetic = \<lparr> rnd = Num, pow2 = (\<lambda>x. Num (x\<^sup>2)) \<rparr>"

subsection \<open>convertToLLaMAFormat\<close>

text \<open>
  \<^verbatim>\<open>s.split(/\s+/).length\<close> is one more than the number of maximal runs of white space
  in \<open>s\<close>. \<^verbatim>\<open>item.prompt.split\<close> throws a TypeError when the prompt is missing, and the
  exception leaves \<^verbatim>\<open>map\<close>.
\<close>

datatype js_error = TypeError

record training_metadata =
  responseLength :: nat
  promptTokens :: nat
  responseTokens :: nat

record training_record =
  instruction :: jsstring
  inputField :: jsstring
  outputField :: jsstring
  metadata :: training_metadata

function space_runs :: "jsstring \<Rightarrow> nat" where
  "space_runs [] = 0"
| "space_runs (c # cs) =
     (if is_space c then Suc (space_runs (dropWhile is_space cs)) else space_runs cs)"
  by pat_completeness auto
termination
  by (relation "measure length") (auto simp: length_dropWhile_le less_Suc_eq_le)

definition split_length :: "jsstring \<Rightarrow> nat" where
  "split_length s = Suc (space_runs s)"

definition convertItem :: "response_record \<Rightarrow> js_error + training_record" where
  "convertItem item =
     (case prompt item of
        None \<Rightarrow> Inl TypeError
      | Some p \<Rightarrow>
          Inr \<lparr> instruction = p, inputField = [], outputField = response item,
                metadata = \<lparr> responseLength = length (response item),
                             promptTokens = split_length p,
                             responseTokens = split_length (response item) \<rparr> \<rparr>)"

fun convertToLLaMAFormat :: "response_record list \<Rightarrow> js_error + training_record list" where
  "convertToLLaMAFormat [] = Inr []"
| "convertToLLaMAFormat (item # items) =
     (case convertItem item of
        Inl e \<Rightarrow> Inl e
      | Inr t \<Rightarrow>
          (case convertToLLaMAFormat items of
             Inl e \<Rightarrow> Inl e
           | Inr ts \<Rightarrow> Inr (t # ts)))"

subsection \<open>The stages on stores of records\<close>

text \<open>
  The objects of a run: the prompt objects (the raw records and the variations that
  \<^verbatim>\<open>augmentData\<close> adds), the response records and the training records. A reference
  is the address of an object in its store; the count of a store is the number of
  objects created so far, and a new object gets the next address.
\<close>

record stores =
  promptObjs :: "nat \<Rightarrow> raw_record"
  promptCount :: nat
  responseObjs :: "nat \<Rightarrow> response_record"
  responseCount :: nat
  trainingObjs :: "nat \<Rightarrow> training_record"
  trainingCount :: nat

definition newPrompt :: "stores \<Rightarrow> raw_record \<Rightarrow> stores \<times> nat" where
  "newPrompt s r =
     (s\<lparr>promptObjs := (promptObjs s)(promptCount s := r), promptCount := Suc (promptCount s)\<rparr>,
      promptCount s)"

definition newResponse :: "stores \<Rightarrow> response_record \<Rightarrow> stores \<times> nat" where
  "newResponse s r =
     (s\<lparr>responseObjs := (responseObjs s)(responseCount s := r),
        responseCount := Suc (responseCount s)\<rparr>,
      responseCount s)"

definition newTraining :: "stores \<Rightarrow> training_record \<Rightarrow> stores \<times> nat" where
  "newTraining s r =
     (s\<lparr>trainingObjs := (trainingObjs s)(trainingCount s := r),
        trainingCount := Suc (trainingCount s)\<rparr>,
      trainingCount s)"

fun newAll :: "(stores \<Rightarrow> 'a \<Rightarrow> stores \<times> nat) \<Rightarrow> stores \<Rightarrow> 'a list \<Rightarrow> stores \<times> nat list" where
  "newAll new s [] = (s, [])"
| "newAll new s (r # rs) =
     (case new s r of
        (s1, a) \<Rightarrow> (case newAll new s1 rs of (s2, as) \<Rightarrow> (s2, a # as)))"

text \<open>
  \<^verbatim>\<open>augmentData\<close>: for every item the item itself, then one new object for every pair
  of the configuration for which \<^verbatim>\<open>createPromptVariation\<close> returns a non-empty string.
  \<open>variation i temp maxTok\<close> is what it returns for \<open>data[i]\<close>: the content, or \<open>None\<close> for
  \<^verbatim>\<open>null\<close>.
\<close>

definition temperature :: "real list" where
  "temperature = [0.7, 1.0, 1.2]"

definition maxTokens :: "nat list" where
  "maxTokens = [100, 150, 200]"

fun augmentVariations ::
  "(real \<Rightarrow> nat \<Rightarrow> jsstring option) \<Rightarrow> (real \<times> nat) list \<Rightarrow> stores \<Rightarrow> stores \<times> nat list" where
  "augmentVariations variation [] s = (s, [])"
| "augmentVariations variation ((temp, maxTok) # grid) s =
     (case variation temp maxTok of
        None \<Rightarrow> augmentVariations variation grid s
      | Some augmentedPrompt \<Rightarrow>
          if augmentedPrompt = [] then augmentVariations variation grid s
          else
            (case newPrompt s \<lparr> prompt = Some augmentedPrompt, input' = None, output' = None \<rparr> of
               (s1, a) \<Rightarrow>
                 (case augmentVariations variation grid s1 of
                    (s2, out) \<Rightarrow> (s2, a # out))))"

fun augmentData_from ::
  "(nat \<Rightarrow> real \<Rightarrow> nat \<Rightarrow> jsstring option) \<Rightarrow> nat \<Rightarrow> stores \<Rightarrow> nat list \<Rightarrow> stores \<times> nat list" where
  "augmentData_from variation i s [] = (s, [])"
| "augmentData_from variation i s (item # items) =
     (case augmentVariations (variation i) (List.product temperature maxTokens) s of
        (s1, variants) \<Rightarrow>
          (case augmentData_from variation (Suc i) s1 items of
             (s2, out) \<Rightarrow> (s2, item # variants @ out)))"

definition augmentData_store ::
  "(nat \<Rightarrow> real \<Rightarrow> nat \<Rightarrow> jsstring option) \<Rightarrow> stores \<Rightarrow> nat list \<Rightarrow> stores \<times> nat list" where
  "augmentData_store variation s data = augmentData_from variation 0 s data"

text \<open>
  The other stages: \<^verbatim>\<open>getGPT4Responses\<close> and \<^verbatim>\<open>convertToLLaMAFormat\<close> read the
  records they are given and create new ones; the filter of \<^verbatim>\<open>balanceDataset\<close> returns
  some of the references it is given.
\<close>

definition getGPT4Responses_store ::
  "(nat \<Rightarrow> jsstring option) \<Rightarrow> stores \<Rightarrow> nat list \<Rightarrow> stores \<times> nat list" where
  "getGPT4Responses_store api s data =
     newAll newResponse s (getGPT4Responses api (map (promptObjs s) data))"

definition balanceDataset_store :: "arithmetic \<Rightarrow> stores \<Rightarrow> nat list \<Rightarrow> stores \<times> nat list" where
  "balanceDataset_store ar s data =
     (let items = map (responseObjs s) data;
          ls = responseLengths items; avg = avgLength_fl ar ls; sd = stdDev_fl ar ls
      in (s, filter (\<lambda>a.
                  let len = Num (real (length (response (responseObjs s a))))
                  in js_gt len (fl_sub ar avg (fl_mul ar (Num 2) sd)) \<and>
                     js_lt len (fl_add ar avg (fl_mul ar (Num 2) sd)))
                data))"

definition convertToLLaMAFormat_store :: "stores \<Rightarrow> nat list \<Rightarrow> js_error + stores \<times> nat list" where
  "convertToLLaMAFormat_store s data =
     (case convertToLLaMAFormat (map (responseObjs s) data) of
        Inl e \<Rightarrow> Inl e
      | Inr ts \<Rightarrow> Inr (newAll newTraining s ts))"

section \<open>Notions of the specification\<close>

subsection \<open>Early stopping\<close>

text \<open>
  The validation loss of an epoch in a run whose external calls do not throw, and the
  runs in which none of the first \<open>epochs\<close> epochs throws.
\<close>

definition lossAt :: "(nat \<Rightarrow> epoch_io) \<Rightarrow> nat \<Rightarrow> jsnum" where
  "lossAt io e = (case validLoss (io e) of Some l \<Rightarrow> l | None \<Rightarrow> NaN)"

definition io_ok :: "(nat \<Rightarrow> epoch_io) \<Rightarrow> nat \<Rightarrow> bool" where
  "io_ok io epochs =
     list_all (\<lambda>e. validLoss (io e) \<noteq> None \<and> saveOk (io e)) [1..<Suc epochs]"

text \<open>
  The best validation loss seen in epochs \<open>1..n\<close> (\<open>Infinity\<close> before the first epoch);
  an epoch improves when its loss is strictly below the best loss seen before it; the
  patience after epoch \<open>n\<close> is the number of consecutive epochs without improvement that
  end at \<open>n\<close>.
\<close>

primrec best_after :: "(nat \<Rightarrow> jsnum) \<Rightarrow> nat \<Rightarrow> jsnum" where
  "best_after L 0 = Infinity"
| "best_after L (Suc n) =
     (if js_lt (L (Suc n)) (best_after L n) then L (Suc n) else best_after L n)"

definition improves :: "(nat \<Rightarrow> jsnum) \<Rightarrow> nat \<Rightarrow> bool" where
  "improves L e = js_lt (L e) (best_after L (e - 1))"

definition patience_after :: "(nat \<Rightarrow> jsnum) \<Rightarrow> nat \<Rightarrow> nat" where
  "patience_after L n = length (takeWhile (\<lambda>e. \<not> improves L e) (rev [1..<Suc n]))"

text \<open>The invariant of the loop after \<open>k\<close> epochs, and what holds of its result.\<close>

definition loop_inv :: "(nat \<Rightarrow> jsnum) \<Rightarrow> nat \<Rightarrow> loop_state \<Rightarrow> bool" where
  "loop_inv L k st \<longleftrightarrow>
     bestLoss st = best_after L k \<and> patienceCount st = patience_after L k \<and>
     checkpoints st = filter (improves L) [1..<Suc k] \<and> epochsRun st = k \<and>
     (\<forall>n\<le>k. patience_after L n < maxPatience)"

definition loop_post :: "(nat \<Rightarrow> jsnum) \<Rightarrow> nat \<Rightarrow> outcome \<times> loop_state \<Rightarrow> bool" where
  "loop_post L epochs r \<longleftrightarrow>
     (case r of (res, st) \<Rightarrow>
        checkpoints st = filter (improves L) [1..<Suc (epochsRun st)] \<and>
        bestLoss st = best_after L (epochsRun st) \<and>
        patienceCount st = patience_after L (epochsRun st) \<and>
        epochsRun st \<le> epochs \<and>
        (\<forall>n<epochsRun st. patience_after L n < maxPatience) \<and>
        (if patience_after L (epochsRun st) = maxPatience then res = EarlyStopped
         else res = Completed \<and> epochsRun st = epochs))"

subsection \<open>Statistics of the response lengths\<close>

definition mean_length :: "response_record list \<Rightarrow> real" where
  "mean_length data = (\<Sum>item\<leftarrow>data. real (length (response item))) / real (length data)"

definition population_stddev :: "response_record list \<Rightarrow> real" where
  "population_stddev data =
     sqrt ((\<Sum>item\<leftarrow>data. (real (length (response item)) - mean_length data)\<^sup>2)
           / real (length data))"

subsection \<open>Rounding that is exact on integers\<close>


subsection \<open>Records left as they are\<close>

text \<open>Every object of the stores \<open>s\<close> is in the stores \<open>s'\<close>, at its address, as it was.\<close>

definition unchanged :: "stores \<Rightarrow> stores \<Rightarrow> bool" where
  "unchanged s s' \<longleftrightarrow>
     promptCount s \<le> promptCount s' \<and> (\<forall>a<promptCount s. promptObjs s' a = promptObjs s a) \<and>
     responseCount s \<le> responseCount s' \<and>
     (\<forall>a<responseCount s. responseObjs s' a = responseObjs s a) \<and>
     trainingCount s \<le> trainingCount s' \<and>
     (\<forall>a<trainingCount s. trainingObjs s' a = trainingObjs s a)"

subsection \<open>Cleaned text\<close>




section \<open>Example inputs\<close>

definition newTrainer :: model_trainer where
  "newTrainer = \<lparr> trainingConfig = defaultConfig, optimizerLR = learningRate defaultConfig \<rparr>"

text \<open>
  Validation losses 1.0, 0.9, 0.95, 0.96, 0.97 in epochs 1 to 5 (and 0.5 afterwards);
  no call throws.
\<close>

definition synthetic_io :: "nat \<Rightarrow> epoch_io" where
  "synthetic_io e =
     \<lparr> validLoss = Some (Num (if e = 1 then 1 else if e = 2 then 0.9 else if e = 3 then 0.95
                              else if e = 4 then 0.96 else if e = 5 then 0.97 else 0.5)),
       saveOk = True \<rparr>"

definition rawRecord :: "string \<Rightarrow> raw_record" where
  "rawRecord s = \<lparr> prompt = Some (js s), input' = None, output' = None \<rparr>"

definition responseRecord :: "string \<Rightarrow> string \<Rightarrow> response_record" where
  "responseRecord p r = \<lparr> prompt = Some (js p), response = js r \<rparr>"

definition noProcessedData :: "raw_record list" where
  "noProcessedData = []"


definition same_length_example :: "response_record list" where
  "same_length_example =
     [responseRecord ''question one'' ''hello'',
      responseRecord ''question two'' ''world'',
      responseRecord ''question three'' ''again'']"

text \<open>A store with a raw record at address 0 and a record with a short prompt elsewhere.\<close>

definition example_store :: store where
  "example_store a = (if a = 0 then rawRecord ''  hello   world  '' else rawRecord ''short'')"

text \<open>Stores with the two raw records above, one response record and no training record.\<close>

definition example_stores :: stores where
  "example_stores =
     \<lparr> promptObjs = example_store, promptCount = 2,
       responseObjs = (\<lambda>a. responseRecord ''question'' ''answer''), responseCount = 1,
       trainingObjs =
         (\<lambda>a. \<lparr> instruction = [], inputField = [], outputField = [],
                metadata = \<lparr> responseLength = 0, promptTokens = 1, responseTokens = 1 \<rparr> \<rparr>),
       trainingCount = 0 \<rparr>"

section \<open>The training loop\<close>

lemma js_lt_irrefl: "\<not> js_lt a a"
  by (cases a) auto

lemma js_lt_trans: "js_lt a b \<Longrightarrow> js_lt b c \<Longrightarrow> js_lt a c"
  by (cases a; cases b; cases c) auto

text \<open>
  The best loss after \<open>n\<close> epochs is \<open>Infinity\<close> or the loss of one of these epochs, and
  no loss of these epochs is strictly below it.
\<close>

lemma best_after_is_seen:
  "best_after L n = Infinity \<or> (\<exists>i. 1 \<le> i \<and> i \<le> n \<and> best_after L n = L i)"
  by (induction n) (auto intro: le_SucI)

lemma best_after_lower_bound:
  "1 \<le> i \<Longrightarrow> i \<le> n \<Longrightarrow> \<not> js_lt (L i) (best_after L n)"
proof (induction n)
  case 0
  then show ?case by simp
next
  case (Suc n)
  show ?case
  proof (cases "i = Suc n")
    case True
    then show ?thesis by (simp add: js_lt_irrefl)
  next
    case False
    with Suc.prems have "i \<le> n" by simp
    with Suc have "\<not> js_lt (L i) (best_after L n)" by simp
    then show ?thesis by (auto dest: js_lt_trans)
  qed
qed

lemma patience_after_0: "patience_after L 0 = 0"
  by (simp add: patience_after_def)

lemma patience_after_Suc:
  "patience_after L (Suc n) = (if improves L (Suc n) then 0 else Suc (patience_after L n))"
  by (simp add: patience_after_def)

lemma io_okD:
  "io_ok io epochs \<Longrightarrow> 1 \<le> e \<Longrightarrow> e \<le> epochs \<Longrightarrow>
   (\<exists>l. validLoss (io e) = Some l) \<and> saveOk (io e)"
  unfolding io_ok_def list_all_iff by (auto simp del: upt_Suc)

lemma upt_1_Suc_Suc:
  "filter P [Suc 0..<Suc (Suc k)] = filter P [Suc 0..<Suc k] @ (if P (Suc k) then [Suc k] else [])"
  by simp

lemma trainingLoop_from_post:
  assumes "io_ok io epochs" "loop_inv (lossAt io) k st" "k \<le> epochs"
  shows "loop_post (lossAt io) epochs (trainingLoop_from io epochs (Suc k) st)"
  using assms
proof (induction "epochs - k" arbitrary: k st)
  case 0
  then have "k = epochs" by simp
  with 0 show ?case
    by (subst trainingLoop_from.simps) (auto simp: loop_post_def loop_inv_def less_imp_le simp del: upt_Suc)
next
  case (Suc d)
  then have klt: "Suc k \<le> epochs" by simp
  from Suc.prems(1) klt obtain l where l: "validLoss (io (Suc k)) = Some l" and sv: "saveOk (io (Suc k))"
    using io_okD[of io epochs "Suc k"] by auto
  have L: "lossAt io (Suc k) = l" by (simp add: lossAt_def l)
  show ?case
  proof (cases "js_lt l (bestLoss st)")
    case True
    let ?st' = "st\<lparr>epochsRun := Suc k, bestLoss := l, patienceCount := 0,
                   checkpoints := checkpoints st @ [Suc k],
                   trainer := adjustLearningRate (trainer st) (Suc k) l\<rparr>"
    have imp: "improves (lossAt io) (Suc k)"
      using True Suc.prems(2) by (simp add: improves_def L loop_inv_def)
    have inv': "loop_inv (lossAt io) (Suc k) ?st'"
      using Suc.prems(2) imp True
      by (auto simp: loop_inv_def L patience_after_Suc le_Suc_eq maxPatience_def upt_1_Suc_Suc simp del: upt_Suc)
    have "loop_post (lossAt io) epochs (trainingLoop_from io epochs (Suc (Suc k)) ?st')"
      using Suc.hyps(1)[of "Suc k" ?st'] Suc.hyps(2) Suc.prems(1) inv' klt by simp
    then show ?thesis
      using True klt l sv by (subst trainingLoop_from.simps) (simp add: Let_def)
  next
    case False
    have nimp: "\<not> improves (lossAt io) (Suc k)"
      using False Suc.prems(2) by (simp add: improves_def L loop_inv_def)
    show ?thesis
    proof (cases "Suc (patienceCount st) \<ge> maxPatience")
      case True
      have "patience_after (lossAt io) (Suc k) = maxPatience"
        using True nimp Suc.prems(2) by (auto simp: loop_inv_def patience_after_Suc maxPatience_def)
      then show ?thesis
        using True False klt l nimp Suc.prems(2)
        by (subst trainingLoop_from.simps)
           (auto simp: Let_def loop_post_def loop_inv_def patience_after_Suc L upt_1_Suc_Suc less_Suc_eq_le simp del: upt_Suc)
    next
      case nstop: False
      let ?st' = "st\<lparr>epochsRun := Suc k, patienceCount := patienceCount st + 1,
                   trainer := adjustLearningRate (trainer st) (Suc k) l\<rparr>"
      have inv': "loop_inv (lossAt io) (Suc k) ?st'"
        using Suc.prems(2) nimp False nstop
        by (auto simp: loop_inv_def L patience_after_Suc le_Suc_eq upt_1_Suc_Suc simp del: upt_Suc)
      have "loop_post (lossAt io) epochs (trainingLoop_from io epochs (Suc (Suc k)) ?st')"
        using Suc.hyps(1)[of "Suc k" ?st'] Suc.hyps(2) Suc.prems(1) inv' klt by simp
      then show ?thesis
        using False nstop klt l by (subst trainingLoop_from.simps) (simp add: Let_def)
    qed
  qed
qed

lemma loop_inv_init:
  "loop_inv L 0 \<lparr> bestLoss = Infinity, patienceCount = 0, trainer = this, checkpoints = [],
         epochsRun = 0 \<rparr>"
  by (simp add: loop_inv_def patience_after_0 maxPatience_def)

lemma trainingLoop_post:
  assumes "io_ok io epochs"
  shows "loop_post (lossAt io) epochs (trainingLoop this io epochs)"
  unfolding trainingLoop_def One_nat_def
  by (rule trainingLoop_from_post[OF assms loop_inv_init]) simp

lemma synthetic_facts_Suc:
  assumes "L (Suc 0) = Num 1" "L (Suc (Suc 0)) = Num 0.9" "L (Suc (Suc (Suc 0))) = Num 0.95"
    "L (Suc (Suc (Suc (Suc 0)))) = Num 0.96" "L (Suc (Suc (Suc (Suc (Suc 0))))) = Num 0.97"
  shows "improves L (Suc 0)" "improves L (Suc (Suc 0))" "\<not> improves L (Suc (Suc (Suc 0)))"
    "\<not> improves L (Suc (Suc (Suc (Suc 0))))" "\<not> improves L (Suc (Suc (Suc (Suc (Suc 0)))))"
  using assms by (simp_all add: improves_def)

lemma synthetic_patience_Suc:
  assumes "improves L (Suc 0)" "improves L (Suc (Suc 0))" "\<not> improves L (Suc (Suc (Suc 0)))"
    "\<not> improves L (Suc (Suc (Suc (Suc 0))))" "\<not> improves L (Suc (Suc (Suc (Suc (Suc 0)))))"
  shows "patience_after L 0 = 0" "patience_after L (Suc 0) = 0"
    "patience_after L (Suc (Suc 0)) = 0" "patience_after L (Suc (Suc (Suc 0))) = 1"
    "patience_after L (Suc (Suc (Suc (Suc 0)))) = 2"
    "patience_after L (Suc (Suc (Suc (Suc (Suc 0))))) = 3"
  using assms by (simp_all add: patience_after_0 patience_after_Suc)

lemma synthetic_facts:
  assumes "L 1 = Num 1" "L 2 = Num 0.9" "L 3 = Num 0.95" "L 4 = Num 0.96" "L 5 = Num 0.97"
  shows "filter (improves L) [1..<Suc 5] = [1, 2]"
    and "patience_after L 5 = 3"
    and "\<forall>n<5. patience_after L n < 3"
proof -
  have i: "improves L (Suc 0)" "improves L (Suc (Suc 0))" "\<not> improves L (Suc (Suc (Suc 0)))"
    "\<not> improves L (Suc (Suc (Suc (Suc 0))))" "\<not> improves L (Suc (Suc (Suc (Suc (Suc 0)))))"
    using assms by (simp_all add: synthetic_facts_Suc eval_nat_numeral)
  note p = synthetic_patience_Suc[OF i]
  show "filter (improves L) [1..<Suc 5] = [1, 2]"
    using i by (simp add: upt_conv_Cons eval_nat_numeral)
  show "patience_after L 5 = 3"
    using p(6) by (simp add: eval_nat_numeral)
  show "\<forall>n<5. patience_after L n < 3"
  proof (intro allI impI)
    fix n :: nat assume "n < 5"
    then consider "n = 0" | "n = Suc 0" | "n = Suc (Suc 0)" | "n = Suc (Suc (Suc 0))"
      | "n = Suc (Suc (Suc (Suc 0)))" by linarith
    then show "patience_after L n < 3" using p by cases simp_all
  qed
qed

text \<open>
  C1. In a run of the training loop whose external calls do not throw, a checkpoint is
  written exactly in the epochs whose validation loss is strictly below the best loss
  seen before; such an epoch resets the patience counter and every other epoch
  increments it, so the counter is the number of consecutive epochs without improvement;
  the loop stops at the first epoch where the counter reaches 3 and runs all epochs when
  it never does. With the losses 1.0, 0.9, 0.95, 0.96, 0.97 in the first five of at least
  five epochs, the loop stops early after epoch 5 with checkpoints for epochs 1 and 2
  only.
\<close>

theorem trainingLoop_early_stopping:
  assumes "io_ok io epochs"
  shows "(case trainingLoop this io epochs of (res, st) \<Rightarrow>
            checkpoints st = filter (improves (lossAt io)) [1..<Suc (epochsRun st)] \<and>
            bestLoss st = best_after (lossAt io) (epochsRun st) \<and>
            patienceCount st = patience_after (lossAt io) (epochsRun st) \<and>
            epochsRun st \<le> epochs \<and>
            (\<forall>n<epochsRun st. patience_after (lossAt io) n < 3) \<and>
            (if patience_after (lossAt io) (epochsRun st) = 3 then res = EarlyStopped
             else res = Completed \<and> epochsRun st = epochs)) \<and>
         (5 \<le> epochs \<and> lossAt io 1 = Num 1 \<and> lossAt io 2 = Num 0.9 \<and>
          lossAt io 3 = Num 0.95 \<and> lossAt io 4 = Num 0.96 \<and> lossAt io 5 = Num 0.97 \<longrightarrow>
            fst (trainingLoop this io epochs) = EarlyStopped \<and>
            epochsRun (snd (trainingLoop this io epochs)) = 5 \<and>
            checkpoints (snd (trainingLoop this io epochs)) = [1, 2])"
proof -
  obtain res st where r: "trainingLoop this io epochs = (res, st)"
    by (cases "trainingLoop this io epochs")
  have post: "loop_post (lossAt io) epochs (res, st)"
    using trainingLoop_post[OF assms, of this] r by simp
  have general: "checkpoints st = filter (improves (lossAt io)) [1..<Suc (epochsRun st)] \<and>
            bestLoss st = best_after (lossAt io) (epochsRun st) \<and>
            patienceCount st = patience_after (lossAt io) (epochsRun st) \<and>
            epochsRun st \<le> epochs \<and>
            (\<forall>n<epochsRun st. patience_after (lossAt io) n < 3) \<and>
            (if patience_after (lossAt io) (epochsRun st) = 3 then res = EarlyStopped
             else res = Completed \<and> epochsRun st = epochs)"
    using post unfolding loop_post_def maxPatience_def by (simp del: upt_Suc)
  have example: "res = EarlyStopped \<and> epochsRun st = 5 \<and> checkpoints st = [1, 2]"
    if e: "5 \<le> epochs"
      and l: "lossAt io 1 = Num 1" "lossAt io 2 = Num 0.9" "lossAt io 3 = Num 0.95"
        "lossAt io 4 = Num 0.96" "lossAt io 5 = Num 0.97"
  proof -
    note f = synthetic_facts[OF l]
    have "\<not> epochsRun st < 5"
    proof
      assume lt: "epochsRun st < 5"
      then have "patience_after (lossAt io) (epochsRun st) \<noteq> 3" using f(3) by auto
      then have "epochsRun st = epochs" using general by simp
      then show False using lt e by simp
    qed
    moreover have "\<not> 5 < epochsRun st"
      using general f(2) by auto
    ultimately have five: "epochsRun st = 5" by simp
    have "checkpoints st = [1, 2]"
      using general f(1) unfolding five by (simp del: upt_Suc)
    moreover have "res = EarlyStopped"
      using general f(2) unfolding five by simp
    ultimately show ?thesis using five by simp
  qed
  show ?thesis
    unfolding r prod.case fst_conv snd_conv
    using general example by blast
qed

theorem trainingLoop_early_stopping_witness:
  "io_ok synthetic_io 10 \<and>
   fst (trainingLoop newTrainer synthetic_io 10) = EarlyStopped \<and>
   epochsRun (snd (trainingLoop newTrainer synthetic_io 10)) = 5 \<and>
   checkpoints (snd (trainingLoop newTrainer synthetic_io 10)) = [1, 2]"
proof -
  have ok: "io_ok synthetic_io 10"
    unfolding io_ok_def by (simp add: upt_conv_Cons synthetic_io_def)
  have l: "lossAt synthetic_io 1 = Num 1" "lossAt synthetic_io 2 = Num 0.9"
    "lossAt synthetic_io 3 = Num 0.95" "lossAt synthetic_io 4 = Num 0.96"
    "lossAt synthetic_io 5 = Num 0.97"
    by (simp_all add: lossAt_def synthetic_io_def)
  show ?thesis
    using trainingLoop_early_stopping[OF ok, of newTrainer] ok l by simp
qed

section \<open>The learning-rate schedule\<close>

lemma adjustLearningRate_after_warmup:
  "warmupSteps (trainingConfig this) < epoch \<Longrightarrow>
   optimizerLR (adjustLearningRate this epoch loss) =
     learningRate (trainingConfig this) * (95 / 100) ^ (epoch div 2)"
  by (simp add: adjustLearningRate_def Let_def)

text \<open>
  C4. For an epoch index of at most the configured warmup step count the trainer is left
  as it is. For an epoch index above it the optimizer's learning rate becomes the base
  rate of the configuration times 0.95 to the power \<open>epoch div 2\<close>: the configuration is
  not changed, the result does not depend on the rate the optimizer had before, and a
  later adjustment starts from the base rate again. With the default configuration
  (warmup 500, base rate 1e-5) no epoch up to 500 changes anything and epoch 502 gives
  1e-5 times 0.95 to the power \<open>502 div 2\<close>.
\<close>

theorem adjustLearningRate_schedule:
  "(epoch \<le> warmupSteps (trainingConfig this) \<longrightarrow>
      adjustLearningRate this epoch loss = this) \<and>
   (warmupSteps (trainingConfig this) < epoch \<longrightarrow>
      optimizerLR (adjustLearningRate this epoch loss) =
        learningRate (trainingConfig this) * (95 / 100) ^ (epoch div 2) \<and>
      trainingConfig (adjustLearningRate this epoch loss) = trainingConfig this \<and>
      adjustLearningRate (this\<lparr>optimizerLR := previous\<rparr>) epoch loss =
        adjustLearningRate this epoch loss \<and>
      optimizerLR (adjustLearningRate (adjustLearningRate this epoch loss) (Suc epoch) loss') =
        learningRate (trainingConfig this) * (95 / 100) ^ (Suc epoch div 2)) \<and>
   (trainingConfig this = defaultConfig \<longrightarrow>
      (\<forall>e\<le>500. adjustLearningRate this e loss = this) \<and>
      optimizerLR (adjustLearningRate this 502 loss) = (1 / 100000) * (95 / 100) ^ (502 div 2))"
proof (intro conjI impI allI)
  assume "epoch \<le> warmupSteps (trainingConfig this)"
  then show "adjustLearningRate this epoch loss = this"
    by (simp add: adjustLearningRate_def)
next
  assume w: "warmupSteps (trainingConfig this) < epoch"
  then show "optimizerLR (adjustLearningRate this epoch loss) =
        learningRate (trainingConfig this) * (95 / 100) ^ (epoch div 2)"
    by (simp add: adjustLearningRate_def Let_def)
  show "trainingConfig (adjustLearningRate this epoch loss) = trainingConfig this"
    by (simp add: adjustLearningRate_def Let_def)
  show "adjustLearningRate (this\<lparr>optimizerLR := previous\<rparr>) epoch loss =
        adjustLearningRate this epoch loss"
    using w by (simp add: adjustLearningRate_def Let_def)
  show "optimizerLR (adjustLearningRate (adjustLearningRate this epoch loss) (Suc epoch) loss') =
        learningRate (trainingConfig this) * (95 / 100) ^ (Suc epoch div 2)"
    using w by (simp add: adjustLearningRate_def Let_def del: power_Suc div_Suc)
next
  fix e :: nat
  assume "trainingConfig this = defaultConfig" "e \<le> 500"
  then show "adjustLearningRate this e loss = this"
    by (simp add: adjustLearningRate_def defaultConfig_def)
next
  assume c: "trainingConfig this = defaultConfig"
  have "warmupSteps (trainingConfig this) < 502"
    by (simp add: c defaultConfig_def)
  then have "optimizerLR (adjustLearningRate this 502 loss) =
      learningRate (trainingConfig this) * (95 / 100) ^ (502 div 2)"
    by (rule adjustLearningRate_after_warmup)
  also have "learningRate (trainingConfig this) = 1 / 100000"
    by (simp add: c defaultConfig_def)
  finally show "optimizerLR (adjustLearningRate this 502 loss) = (1 / 100000) * (95 / 100) ^ (502 div 2)" .
qed

theorem adjustLearningRate_schedule_witness:
  "adjustLearningRate newTrainer 500 (Num 1) = newTrainer \<and>
   optimizerLR (adjustLearningRate newTrainer 502 (Num 1)) = (1 / 100000) * (95 / 100) ^ (502 div 2) \<and>
   optimizerLR (adjustLearningRate (newTrainer\<lparr>optimizerLR := 7\<rparr>) 502 (Num 1)) =
     (1 / 100000) * (95 / 100) ^ (502 div 2)"
proof -
  have c: "trainingConfig newTrainer = defaultConfig"
    by (simp add: newTrainer_def)
  have c': "trainingConfig (newTrainer\<lparr>optimizerLR := 7\<rparr>) = defaultConfig"
    by (simp add: newTrainer_def)
  have "(500::nat) \<le> 500" by simp
  then show ?thesis
    using adjustLearningRate_schedule[of 502 newTrainer "Num 1" 7 "Num 1"]
      adjustLearningRate_schedule[of 502 "newTrainer\<lparr>optimizerLR := 7\<rparr>" "Num 1" 7 "Num 1"] c c'
    by blast
qed

section \<open>Balancing\<close>

lemma foldl_js_add_Num:
  "foldl (\<lambda>a b. js_add a b) (Num s) (map Num xs) = Num (s + sum_list xs)"
  by (induction xs arbitrary: s) (simp_all add: add.assoc)

lemma foldl_sq_Num:
  "foldl (\<lambda>a b. js_add a (js_pow2 (js_sub b (Num m)))) (Num s) (map Num xs) =
     Num (s + (\<Sum>x\<leftarrow>xs. (x - m)\<^sup>2))"
  by (induction xs arbitrary: s) (simp_all add: add.assoc js_sub_def)

lemma responseLengths_map:
  "responseLengths data = map Num (map (\<lambda>item. real (length (response item))) data)"
  by (simp add: responseLengths_def)

lemma avgLength_nonempty:
  assumes "data \<noteq> []"
  shows "avgLength (responseLengths data) = Num (mean_length data)"
  using assms
  by (simp add: avgLength_def responseLengths_map foldl_js_add_Num mean_length_def
      del: map_map)

lemma avgLength_empty: "avgLength [] = NaN"
  by (simp add: avgLength_def)

lemma stdDev_empty: "stdDev [] = NaN"
  by (simp add: stdDev_def)

lemma sum_sq_nonneg: "0 \<le> (\<Sum>x\<leftarrow>xs. (x - m)\<^sup>2)" for m :: real
  by (induction xs) simp_all

lemma stdDev_nonempty:
  assumes "data \<noteq> []"
  shows "stdDev (responseLengths data) = Num (population_stddev data)"
proof -
  have a: "avgLength (responseLengths data) = Num (mean_length data)"
    by (rule avgLength_nonempty[OF assms])
  have n: "real (length data) \<noteq> 0" using assms by simp
  have "stdDev (responseLengths data) =
    js_sqrt (js_div (Num (0 + (\<Sum>x\<leftarrow>map (\<lambda>item. real (length (response item))) data. (x - mean_length data)\<^sup>2)))
                    (Num (real (length data))))"
    unfolding stdDev_def a unfolding responseLengths_map foldl_sq_Num by simp
  also have "\<dots> = Num (population_stddev data)"
    using n sum_sq_nonneg[of "mean_length data" "map (\<lambda>item. real (length (response item))) data"]
    by (simp add: population_stddev_def comp_def not_less divide_nonneg_nonneg)
  finally show ?thesis .
qed

lemma balanceDataset_nonempty:
  assumes "data \<noteq> []"
  shows "balanceDataset data =
    filter (\<lambda>item. mean_length data - 2 * population_stddev data < real (length (response item)) \<and>
                   real (length (response item)) < mean_length data + 2 * population_stddev data) data"
  unfolding balanceDataset_def Let_def avgLength_nonempty[OF assms] stdDev_nonempty[OF assms]
  by (simp add: js_gt_def js_sub_def)

lemma length_js [simp]: "length (js s) = length s"
  by (simp add: js_def)

lemma sum_const_length:
  assumes "\<forall>item\<in>set data. length (response item) = L"
  shows "(\<Sum>item\<leftarrow>data. real (length (response item))) = real (length data) * real L"
  using assms by (induction data) (simp_all add: algebra_simps)

lemma mean_length_const:
  assumes "\<forall>item\<in>set data. length (response item) = L" "data \<noteq> []"
  shows "mean_length data = real L"
  using assms(2) by (simp add: mean_length_def sum_const_length[OF assms(1)])

lemma sum_sq_const:
  assumes "\<forall>item\<in>set data. length (response item) = L"
  shows "(\<Sum>item\<leftarrow>data. (real (length (response item)) - real L)\<^sup>2) = 0"
  using assms by (induction data) simp_all

lemma population_stddev_const:
  assumes "\<forall>item\<in>set data. length (response item) = L" "data \<noteq> []"
  shows "population_stddev data = 0"
  by (simp add: population_stddev_def mean_length_const[OF assms] sum_sq_const[OF assms(1)])

text \<open>
  C2. What the code does on a list whose responses all have the same length: the standard
  deviation is 0, both comparisons of the filter are strict, and every record is
  removed.
\<close>

theorem balanceDataset_zero_variance:
  assumes "\<forall>item\<in>set data. length (response item) = L"
  shows "balanceDataset data = []"
proof (cases "data = []")
  case True
  then show ?thesis by (simp add: balanceDataset_def)
next
  case False
  show ?thesis
    unfolding balanceDataset_nonempty[OF False] mean_length_const[OF assms False]
      population_stddev_const[OF assms False]
    using assms by (simp add: filter_empty_conv)
qed

theorem balanceDataset_zero_variance_witness:
  "same_length_example \<noteq> [] \<and> list_all (\<lambda>item. length (response item) = 5) same_length_example \<and>
   balanceDataset same_length_example = []"
proof -
  have a: "\<forall>item\<in>set same_length_example. length (response item) = 5"
    by (simp add: same_length_example_def responseRecord_def)
  show ?thesis
    using balanceDataset_zero_variance[OF a] a
    by (simp add: list_all_iff) (simp add: same_length_example_def)
qed





lemma fl_exact:
  "fl_add exact_arithmetic = js_add" "fl_sub exact_arithmetic = js_sub"
  "fl_mul exact_arithmetic = js_mul" "fl_div exact_arithmetic = js_div"
  "fl_sqrt exact_arithmetic = js_sqrt" "fl_pow2 exact_arithmetic = js_pow2"
proof -
  show "fl_add exact_arithmetic = js_add"
    by (intro ext) (simp add: fl_add_def exact_arithmetic_def split: jsnum.splits)
  show "fl_sub exact_arithmetic = js_sub"
    by (intro ext) (simp add: fl_sub_def js_sub_def exact_arithmetic_def split: jsnum.splits)
  show "fl_mul exact_arithmetic = js_mul"
    by (intro ext) (simp add: fl_mul_def exact_arithmetic_def split: jsnum.splits)
  show "fl_div exact_arithmetic = js_div"
    by (intro ext) (simp add: fl_div_def exact_arithmetic_def split: jsnum.splits)
  show "fl_sqrt exact_arithmetic = js_sqrt"
    by (intro ext) (simp add: fl_sqrt_def exact_arithmetic_def split: jsnum.splits)
  show "fl_pow2 exact_arithmetic = js_pow2"
    by (intro ext) (simp add: fl_pow2_def exact_arithmetic_def split: jsnum.splits)
qed

lemma balanceDataset_fl_exact: "balanceDataset_fl exact_arithmetic = balanceDataset"
  by (intro ext)
     (simp add: balanceDataset_fl_def balanceDataset_def avgLength_fl_def avgLength_def
        stdDev_fl_def stdDev_def fl_exact)














text \<open>
  C9. For the empty list the mean and the standard deviation are NaN (\<^verbatim>\<open>0 / 0\<close> does not
  throw) and the result is the empty list.
\<close>

theorem balanceDataset_empty:
  "balanceDataset [] = [] \<and> avgLength (responseLengths []) = NaN \<and>
   stdDev (responseLengths []) = NaN"
  by (simp add: balanceDataset_def responseLengths_def avgLength_def stdDev_def)

section \<open>Response collection\<close>

lemma upt_split: "i \<le> m \<Longrightarrow> m \<le> n \<Longrightarrow> [i..<n] = [i..<m] @ [m..<n]"
  using upt_add_eq_append[of i m "n - m"] by simp

lemma map_the_filter_map:
  "map the (filter (\<lambda>r. r \<noteq> None) (map g ks)) = map (\<lambda>k. the (g k)) (filter (\<lambda>k. g k \<noteq> None) ks)"
  by (induction ks) simp_all

lemma batch_enumerate:
  "map f (enumerate 0 (take b (drop i data))) =
   map (\<lambda>k. f (k - i, data ! k)) [i..<min (i + b) (length data)]"
proof (rule nth_equalityI)
  show "length (map f (enumerate 0 (take b (drop i data)))) =
        length (map (\<lambda>k. f (k - i, data ! k)) [i..<min (i + b) (length data)])"
    by (auto simp: min_def)
next
  fix j
  assume "j < length (map f (enumerate 0 (take b (drop i data))))"
  then have j: "j < b" "i + j < length data"
    by auto
  then have "i + j < min (i + b) (length data)"
    by simp
  with j show "map f (enumerate 0 (take b (drop i data))) ! j =
        map (\<lambda>k. f (k - i, data ! k)) [i..<min (i + b) (length data)] ! j"
    by (simp add: nth_enumerate_eq)
qed

lemma batch_responses:
  "map the (filter (\<lambda>r. r \<noteq> None)
     (map (\<lambda>(j, item). map_option (\<lambda>content. \<lparr> prompt = prompt item, response = content \<rparr>) (api (i + j)))
        (enumerate 0 (take b (drop i data))))) =
   map (responseOf api data) (filter (\<lambda>k. api k \<noteq> None) [i..<min (i + b) (length data)])"
proof -
  let ?h = "\<lambda>k. map_option (\<lambda>content. \<lparr> prompt = prompt (data ! k), response = content \<rparr>) (api k)"
  have e: "map (\<lambda>(j, item). map_option (\<lambda>content. \<lparr> prompt = prompt item, response = content \<rparr>) (api (i + j)))
        (enumerate 0 (take b (drop i data))) = map ?h [i..<min (i + b) (length data)]"
    unfolding batch_enumerate by (rule map_cong) auto
  have "map the (filter (\<lambda>r. r \<noteq> None) (map ?h [i..<min (i + b) (length data)])) =
    map (responseOf api data) (filter (\<lambda>k. api k \<noteq> None) [i..<min (i + b) (length data)])"
    unfolding map_the_filter_map
    by (rule map_cong) (auto simp: responseOf_def intro!: filter_cong)
  then show ?thesis
    by (simp only: e)
qed

lemma getGPT4Responses_from_eq:
  "getGPT4Responses_from api data i responses =
   responses @ map (responseOf api data) (filter (\<lambda>k. api k \<noteq> None) [i..<length data])"
proof (induction api data i responses rule: getGPT4Responses_from.induct)
  case (1 api data i responses)
  show ?case
  proof (cases "i < length data")
    case False
    then show ?thesis by (subst getGPT4Responses_from.simps) simp
  next
    case True
    let ?m = "min (i + batchSize) (length data)"
    have split: "[i..<length data] = [i..<?m] @ [?m..<length data]"
      using True by (intro upt_split) auto
    have rest: "[i + batchSize..<length data] = [?m..<length data]"
      by (simp add: min_def)
    have "getGPT4Responses_from api data i responses =
       getGPT4Responses_from api data (i + batchSize)
         (responses @ map (responseOf api data) (filter (\<lambda>k. api k \<noteq> None) [i..<?m]))"
      using True by (subst getGPT4Responses_from.simps) (simp only: Let_def batch_responses if_True)
    also have "\<dots> = (responses @ map (responseOf api data) (filter (\<lambda>k. api k \<noteq> None) [i..<?m]))
        @ map (responseOf api data) (filter (\<lambda>k. api k \<noteq> None) [i + batchSize..<length data])"
      using "1.IH"[OF True refl refl] by (simp only: batch_responses)
    also have "\<dots> = responses @ (map (responseOf api data) (filter (\<lambda>k. api k \<noteq> None) [i..<?m])
        @ map (responseOf api data) (filter (\<lambda>k. api k \<noteq> None) [?m..<length data]))"
      unfolding rest by simp
    also have "map (responseOf api data) (filter (\<lambda>k. api k \<noteq> None) [i..<?m])
        @ map (responseOf api data) (filter (\<lambda>k. api k \<noteq> None) [?m..<length data]) =
        map (responseOf api data) (filter (\<lambda>k. api k \<noteq> None) ([i..<?m] @ [?m..<length data]))"
      by simp
    also have "[i..<?m] @ [?m..<length data] = [i..<length data]"
      by (rule split[symmetric])
    finally show ?thesis .
  qed
qed

text \<open>
  C10. The result of the batched response collection is the list of the response records
  of the items whose request succeeded, in the order of the input: the record made from
  \<open>data[k]\<close> carries the prompt of \<open>data[k]\<close> and the content returned for it. So the prompts
  of the result are a subsequence of the prompts of the input, and there is one record
  for every successful request.
\<close>

theorem getGPT4Responses_order:
  "getGPT4Responses api data =
     map (\<lambda>k. \<lparr> prompt = prompt (data ! k), response = the (api k) \<rparr>)
       (filter (\<lambda>k. api k \<noteq> None) [0..<length data]) \<and>
   subseq (map prompt (getGPT4Responses api data)) (map prompt data) \<and>
   length (getGPT4Responses api data) = length (filter (\<lambda>k. api k \<noteq> None) [0..<length data])"
proof -
  have e: "getGPT4Responses api data =
     map (\<lambda>k. \<lparr> prompt = prompt (data ! k), response = the (api k) \<rparr>)
       (filter (\<lambda>k. api k \<noteq> None) [0..<length data])"
    unfolding getGPT4Responses_def getGPT4Responses_from_eq
    by (simp add: responseOf_def[abs_def])
  have "map prompt (getGPT4Responses api data) =
      map (\<lambda>k. prompt (data ! k)) (filter (\<lambda>k. api k \<noteq> None) [0..<length data])"
    unfolding e by (simp add: comp_def)
  moreover have "map prompt data = map (\<lambda>k. prompt (data ! k)) [0..<length data]"
  proof -
    have "map (\<lambda>k. prompt (data ! k)) [0..<length data] =
        map prompt (map (\<lambda>k. data ! k) [0..<length data])"
      unfolding map_map by (simp only: comp_def)
    also have "\<dots> = map prompt data" by (simp only: map_nth)
    finally show ?thesis by (rule sym)
  qed
  moreover have "subseq (map (\<lambda>k. prompt (data ! k)) (filter (\<lambda>k. api k \<noteq> None) [0..<length data]))
      (map (\<lambda>k. prompt (data ! k)) [0..<length data])"
    by (rule subseq_map) simp
  ultimately have "subseq (map prompt (getGPT4Responses api data)) (map prompt data)"
    by simp
  then show ?thesis using e by simp
qed

section \<open>Cleaning\<close>

lemmas clean_eval = cleanData_def cleanItem_def rawRecord_def js_def cleanText_def js_trim_def
  is_space_def kept_def is_word_def noProcessedData_def

text \<open>
  When no element of \<^verbatim>\<open>processedData\<close> has a prompt (the list is empty, or holds
  the training records that \<^verbatim>\<open>saveProcessedData\<close> stores, which have an
  \<^verbatim>\<open>instruction\<close> and no \<^verbatim>\<open>prompt\<close>), the duplicate test rejects nothing.
\<close>

lemma cleanData_no_dedup:
  assumes "\<forall>q\<in>set pd. prompt q = None"
  shows "cleanData pd data =
    map (\<lambda>item. item\<lparr>prompt := map_option cleanText (prompt item)\<rparr>)
      (filter (\<lambda>item. case prompt item of None \<Rightarrow> False | Some p \<Rightarrow> 10 \<le> length p) data)"
proof -
  have "\<not> list_ex (\<lambda>processed. prompt processed = Some p) pd" for p
    using assms by (auto simp: list_ex_iff)
  then show ?thesis
    by (induction data) (auto simp: cleanData_def cleanItem_def split: option.splits)
qed

text \<open>
  C3. What the code does on two records with the same prompt, in the state the
  constructor leaves (\<^verbatim>\<open>processedData\<close> is empty): both are kept.
\<close>

theorem cleanData_keeps_duplicates:
  "cleanData noProcessedData [rawRecord ''What is a monad?'', rawRecord ''What is a monad?''] =
     [rawRecord ''What is a monad?'', rawRecord ''What is a monad?'']"
  by (simp add: clean_eval)

text \<open>
  C6. What the code does on a prompt of 14 characters that is shorter than 10
  characters after cleaning, and on a prompt of 12 spaces: the length is tested before the
  text is cleaned, so the records are kept with prompts of 8 and of 0 characters.
\<close>

theorem cleanData_short_output:
  "cleanData noProcessedData [rawRecord ''   hi there   '', rawRecord ''            ''] =
     [rawRecord ''hi there'', rawRecord []] \<and>
   length (js ''   hi there   '') = 14 \<and> length (js ''hi there'') = 8 \<and>
   length (js ''            '') = 12 \<and> length (js []) = 0"
  by (simp add: clean_eval)

lemma cleanItem_unchanged:
  "\<not> fst (cleanItem pd item) \<Longrightarrow> snd (cleanItem pd item) = item"
  by (auto simp: cleanItem_def split: option.splits if_splits)

lemma cleanItem_kept:
  "fst (cleanItem pd item) \<Longrightarrow>
   snd (cleanItem pd item) = item\<lparr>prompt := map_option cleanText (prompt item)\<rparr>"
  by (auto simp: cleanItem_def split: option.splits if_splits)

lemma cleanItem_fields:
  "input' (snd (cleanItem pd item)) = input' item \<and>
   output' (snd (cleanItem pd item)) = output' item"
  by (auto simp: cleanItem_def split: option.splits if_splits)



















lemma cleanData_store_distinct:
  assumes "distinct refs"
  shows "cleanData_store pd h refs =
    (\<lambda>a. if a \<in> set refs then snd (cleanItem pd (h a)) else h a,
     filter (\<lambda>a. fst (cleanItem pd (h a))) refs)"
  using assms
proof (induction refs arbitrary: h)
  case Nil
  then show ?case by simp
next
  case (Cons a0 as)
  obtain keep item where ci: "cleanItem pd (h a0) = (keep, item)"
    by (cases "cleanItem pd (h a0)")
  let ?h1 = "h(a0 := item)"
  have d: "distinct as" and n: "a0 \<notin> set as" using Cons.prems by auto
  have f: "filter (\<lambda>a. fst (cleanItem pd (?h1 a))) as =
           filter (\<lambda>a. fst (cleanItem pd (h a))) as"
    by (rule filter_cong) (use n in auto)
  have g: "(\<lambda>a. if a \<in> set as then snd (cleanItem pd (?h1 a)) else ?h1 a) =
           (\<lambda>a. if a \<in> set (a0 # as) then snd (cleanItem pd (h a)) else h a)"
    using n ci by (intro ext) auto
  have "cleanData_store pd h (a0 # as) =
      (\<lambda>a. if a \<in> set as then snd (cleanItem pd (?h1 a)) else ?h1 a,
       if keep then a0 # filter (\<lambda>a. fst (cleanItem pd (?h1 a))) as
       else filter (\<lambda>a. fst (cleanItem pd (?h1 a))) as)"
    by (simp only: cleanData_store.simps ci prod.case Cons.IH[OF d])
  also have "\<dots> = (\<lambda>a. if a \<in> set (a0 # as) then snd (cleanItem pd (h a)) else h a,
     filter (\<lambda>a. fst (cleanItem pd (h a))) (a0 # as))"
    unfolding f g using ci by simp
  finally show ?case .
qed

lemma map_snd_filter_fst:
  "map snd (filter fst (map g xs)) = map (\<lambda>x. snd (g x)) (filter (\<lambda>x. fst (g x)) xs)"
  by (induction xs) simp_all

lemma cleanData_store_untouched:
  "cleanData_store pd h refs = (h', out) \<Longrightarrow> a \<notin> set out \<Longrightarrow> h' a = h a"
proof (induction refs arbitrary: h h' out)
  case Nil
  then show ?case by simp
next
  case (Cons a0 as)
  obtain keep item where ci: "cleanItem pd (h a0) = (keep, item)"
    by (cases "cleanItem pd (h a0)")
  obtain h1 out1 where r: "cleanData_store pd (h(a0 := item)) as = (h1, out1)"
    by (cases "cleanData_store pd (h(a0 := item)) as")
  from Cons.prems(1) ci r have h': "h' = h1" and out: "out = (if keep then a0 # out1 else out1)"
    by simp_all
  from Cons.prems(2) out have "a \<notin> set out1" by (auto split: if_splits)
  from Cons.IH[OF r this] have e: "h' a = (h(a0 := item)) a" by (simp add: h')
  show ?case
  proof (cases "a = a0")
    case True
    with Cons.prems(2) out have "\<not> keep" by (auto split: if_splits)
    with ci cleanItem_unchanged[of pd "h a0"] have "item = h a0" by simp
    with e True show ?thesis by simp
  next
    case False
    with e show ?thesis by simp
  qed
qed

lemma cleanData_store_fields:
  "cleanData_store pd h refs = (h', out) \<Longrightarrow>
   input' (h' a) = input' (h a) \<and> output' (h' a) = output' (h a)"
proof (induction refs arbitrary: h h' out)
  case Nil
  then show ?case by simp
next
  case (Cons a0 as)
  obtain keep item where ci: "cleanItem pd (h a0) = (keep, item)"
    by (cases "cleanItem pd (h a0)")
  obtain h1 out1 where r: "cleanData_store pd (h(a0 := item)) as = (h1, out1)"
    by (cases "cleanData_store pd (h(a0 := item)) as")
  from Cons.prems(1) ci r have h': "h' = h1" by simp
  from Cons.IH[OF r] have "input' (h' a) = input' ((h(a0 := item)) a) \<and>
      output' (h' a) = output' ((h(a0 := item)) a)" by (simp add: h')
  moreover have "input' item = input' (h a0) \<and> output' item = output' (h a0)"
    using cleanItem_fields[of pd "h a0"] ci by simp
  ultimately show ?case by (cases "a = a0") simp_all
qed

lemma cleanData_store_subset:
  "cleanData_store pd h refs = (h', out) \<Longrightarrow> set out \<subseteq> set refs"
proof (induction refs arbitrary: h h' out)
  case Nil
  then show ?case by simp
next
  case (Cons a0 as)
  obtain keep item where ci: "cleanItem pd (h a0) = (keep, item)"
    by (cases "cleanItem pd (h a0)")
  obtain h1 out1 where r: "cleanData_store pd (h(a0 := item)) as = (h1, out1)"
    by (cases "cleanData_store pd (h(a0 := item)) as")
  from Cons.prems(1) ci r have out: "out = (if keep then a0 # out1 else out1)"
    by simp
  with Cons.IH[OF r] show ?case by (auto split: if_splits)
qed

text \<open>
  What \<open>cleanData\<close> writes: it returns a sub-list of the references it received; a
  record whose reference is not returned is unchanged; the \<^verbatim>\<open>input\<close> and \<^verbatim>\<open>output\<close>
  fields of every record are unchanged; and when the references are distinct, the
  references returned are those of the accepted records, each accepted record has its
  prompt overwritten by the cleaned text, and the records returned are those of the
  function on values.
\<close>

lemma cleanData_store_frame:
  "(case cleanData_store pd h refs of
      (h', out) \<Rightarrow>
        set out \<subseteq> set refs \<and>
        (\<forall>a. a \<notin> set out \<longrightarrow> h' a = h a) \<and>
        (\<forall>a. input' (h' a) = input' (h a) \<and> output' (h' a) = output' (h a)) \<and>
        (distinct refs \<longrightarrow>
           out = filter (\<lambda>a. fst (cleanItem pd (h a))) refs \<and>
           (\<forall>a\<in>set out. h' a = (h a)\<lparr>prompt := map_option cleanText (prompt (h a))\<rparr>) \<and>
           map h' out = cleanData pd (map h refs)))"
proof -
  obtain h' out where r: "cleanData_store pd h refs = (h', out)"
    by (cases "cleanData_store pd h refs")
  have 1: "set out \<subseteq> set refs" by (rule cleanData_store_subset[OF r])
  have 2: "\<forall>a. a \<notin> set out \<longrightarrow> h' a = h a"
    using cleanData_store_untouched[OF r] by blast
  have 3: "\<forall>a. input' (h' a) = input' (h a) \<and> output' (h' a) = output' (h a)"
    using cleanData_store_fields[OF r] by blast
  have 4: "out = filter (\<lambda>a. fst (cleanItem pd (h a))) refs \<and>
           (\<forall>a\<in>set out. h' a = (h a)\<lparr>prompt := map_option cleanText (prompt (h a))\<rparr>) \<and>
           map h' out = cleanData pd (map h refs)" if d: "distinct refs"
  proof -
    from cleanData_store_distinct[OF d, of pd h] r
    have h': "h' = (\<lambda>a. if a \<in> set refs then snd (cleanItem pd (h a)) else h a)"
      and out: "out = filter (\<lambda>a. fst (cleanItem pd (h a))) refs" by simp_all
    have "\<forall>a\<in>set out. h' a = (h a)\<lparr>prompt := map_option cleanText (prompt (h a))\<rparr>"
      unfolding h' out by (auto simp: cleanItem_kept)
    moreover have "map h' out = cleanData pd (map h refs)"
    proof -
      have "map h' out = map (\<lambda>a. snd (cleanItem pd (h a))) out"
        unfolding h' out by (rule map_cong) auto
      also have "\<dots> = cleanData pd (map h refs)"
        unfolding out cleanData_def map_map map_snd_filter_fst by (simp add: comp_def)
      finally show ?thesis .
    qed
    ultimately show ?thesis using out by simp
  qed
  show ?thesis unfolding r prod.case using 1 2 3 4 by blast
qed

section \<open>The later stages\<close>

lemma unchanged_refl: "unchanged s s"
  by (simp add: unchanged_def)

lemma unchanged_trans: "unchanged s s1 \<Longrightarrow> unchanged s1 s2 \<Longrightarrow> unchanged s s2"
  by (auto simp: unchanged_def)

lemma unchanged_newPrompt: "unchanged s (fst (newPrompt s r))"
  by (simp add: unchanged_def newPrompt_def)

lemma unchanged_newResponse: "unchanged s (fst (newResponse s r))"
  by (simp add: unchanged_def newResponse_def)

lemma unchanged_newTraining: "unchanged s (fst (newTraining s r))"
  by (simp add: unchanged_def newTraining_def)

lemma unchanged_newAll:
  assumes "\<And>s r. unchanged s (fst (new s r))"
  shows "unchanged s (fst (newAll new s rs))"
proof (induction rs arbitrary: s)
  case Nil
  then show ?case by (simp add: unchanged_refl)
next
  case (Cons r rs)
  obtain s1 a where n: "new s r = (s1, a)" by (cases "new s r")
  obtain s2 as where m: "newAll new s1 rs = (s2, as)" by (cases "newAll new s1 rs")
  have "unchanged s s1" using assms[of s r] n by simp
  moreover have "unchanged s1 s2" using Cons.IH[of s1] m by simp
  ultimately show ?case using n m by (simp add: unchanged_trans)
qed

lemma unchanged_augmentVariations:
  "unchanged s (fst (augmentVariations variation grid s))"
proof (induction variation grid s rule: augmentVariations.induct)
  case (1 variation s)
  then show ?case by (simp add: unchanged_refl)
next
  case (2 variation temp maxTok grid s)
  show ?case
  proof (cases "variation temp maxTok")
    case None
    with 2 show ?thesis by simp
  next
    case (Some p)
    show ?thesis
    proof (cases "p = []")
      case True
      with 2 Some show ?thesis by simp
    next
      case False
      obtain s1 a where n: "newPrompt s \<lparr> prompt = Some p, input' = None, output' = None \<rparr> = (s1, a)"
        by (cases "newPrompt s \<lparr> prompt = Some p, input' = None, output' = None \<rparr>")
      obtain s2 out where m: "augmentVariations variation grid s1 = (s2, out)"
        by (cases "augmentVariations variation grid s1")
      have "unchanged s s1"
        using unchanged_newPrompt[of s "\<lparr> prompt = Some p, input' = None, output' = None \<rparr>"] n
        by simp
      moreover have "unchanged s1 s2"
        using "2.IH"(3)[OF Some False n[symmetric]] m by simp
      ultimately show ?thesis using Some False n m by (simp add: unchanged_trans)
    qed
  qed
qed

lemma unchanged_augmentData_from:
  "unchanged s (fst (augmentData_from variation i s data))"
proof (induction data arbitrary: i s)
  case Nil
  then show ?case by (simp add: unchanged_refl)
next
  case (Cons item items)
  obtain s1 vs where n: "augmentVariations (variation i) (List.product temperature maxTokens) s = (s1, vs)"
    by (cases "augmentVariations (variation i) (List.product temperature maxTokens) s")
  obtain s2 out where m: "augmentData_from variation (Suc i) s1 items = (s2, out)"
    by (cases "augmentData_from variation (Suc i) s1 items")
  have "unchanged s s1"
    using unchanged_augmentVariations[of s "variation i" "List.product temperature maxTokens"] n
    by simp
  moreover have "unchanged s1 s2" using Cons.IH[of s1 "Suc i"] m by simp
  ultimately show ?case using n m by (simp add: unchanged_trans)
qed

lemma newAll_newResponse:
  "newAll newResponse s rs = (s', as) \<Longrightarrow>
   as = [responseCount s..<responseCount s + length rs] \<and>
   responseCount s' = responseCount s + length rs \<and>
   map (responseObjs s') as = rs \<and>
   promptObjs s' = promptObjs s \<and> promptCount s' = promptCount s \<and>
   trainingObjs s' = trainingObjs s \<and> trainingCount s' = trainingCount s"
proof (induction rs arbitrary: s s' as)
  case Nil
  then show ?case by simp
next
  case (Cons r rs)
  let ?s1 = "s\<lparr>responseObjs := (responseObjs s)(responseCount s := r),
        responseCount := Suc (responseCount s)\<rparr>"
  obtain s2 bs where m: "newAll newResponse ?s1 rs = (s2, bs)"
    by (cases "newAll newResponse ?s1 rs")
  have n: "newResponse s r = (?s1, responseCount s)" by (simp add: newResponse_def)
  from Cons.prems have e: "s' = s2" "as = responseCount s # bs"
    by (simp_all add: n m)
  note ih = Cons.IH[OF m]
  have c1: "responseCount ?s1 = Suc (responseCount s)" by (simp add: newResponse_def)
  have u: "unchanged ?s1 s2"
    using unchanged_newAll[of newResponse ?s1 rs, OF unchanged_newResponse] m by simp
  then have "responseObjs s2 (responseCount s) = responseObjs ?s1 (responseCount s)"
    by (simp add: unchanged_def c1)
  then have r: "responseObjs s2 (responseCount s) = r" by (simp add: newResponse_def)
  have f: "promptObjs ?s1 = promptObjs s" "promptCount ?s1 = promptCount s" "trainingObjs ?s1 = trainingObjs s" "trainingCount ?s1 = trainingCount s"
    by (simp_all add: newResponse_def)
  have u: "[responseCount s..<responseCount s + length (r # rs)] =
      responseCount s # [Suc (responseCount s)..<Suc (responseCount s) + length rs]"
    by (subst upt_conv_Cons) simp_all
  from ih have i1: "bs = [Suc (responseCount s)..<Suc (responseCount s) + length rs]"
    and i2: "responseCount s2 = Suc (responseCount s) + length rs"
    and i3: "map (responseObjs s2) bs = rs"
    by (auto simp del: upt_Suc)
  have "as = [responseCount s..<responseCount s + length (r # rs)]"
    unfolding u e i1[symmetric] ..
  moreover have "responseCount s' = responseCount s + length (r # rs)"
    unfolding e i2 by simp
  moreover have "map (responseObjs s') as = r # rs"
    unfolding e using r i3 by simp
  ultimately show ?case
    using ih f unfolding e by (simp del: upt_Suc)
qed

lemma newAll_newTraining:
  "newAll newTraining s ts = (s', as) \<Longrightarrow>
   as = [trainingCount s..<trainingCount s + length ts] \<and>
   trainingCount s' = trainingCount s + length ts \<and>
   map (trainingObjs s') as = ts \<and>
   promptObjs s' = promptObjs s \<and> promptCount s' = promptCount s \<and>
   responseObjs s' = responseObjs s \<and> responseCount s' = responseCount s"
proof (induction ts arbitrary: s s' as)
  case Nil
  then show ?case by simp
next
  case (Cons r rs)
  let ?s1 = "s\<lparr>trainingObjs := (trainingObjs s)(trainingCount s := r),
        trainingCount := Suc (trainingCount s)\<rparr>"
  obtain s2 bs where m: "newAll newTraining ?s1 rs = (s2, bs)"
    by (cases "newAll newTraining ?s1 rs")
  have n: "newTraining s r = (?s1, trainingCount s)" by (simp add: newTraining_def)
  from Cons.prems have e: "s' = s2" "as = trainingCount s # bs"
    by (simp_all add: n m)
  note ih = Cons.IH[OF m]
  have c1: "trainingCount ?s1 = Suc (trainingCount s)" by (simp add: newTraining_def)
  have u: "unchanged ?s1 s2"
    using unchanged_newAll[of newTraining ?s1 rs, OF unchanged_newTraining] m by simp
  then have "trainingObjs s2 (trainingCount s) = trainingObjs ?s1 (trainingCount s)"
    by (simp add: unchanged_def c1)
  then have r: "trainingObjs s2 (trainingCount s) = r" by (simp add: newTraining_def)
  have f: "promptObjs ?s1 = promptObjs s" "promptCount ?s1 = promptCount s" "responseObjs ?s1 = responseObjs s" "responseCount ?s1 = responseCount s"
    by (simp_all add: newTraining_def)
  have u: "[trainingCount s..<trainingCount s + length (r # rs)] =
      trainingCount s # [Suc (trainingCount s)..<Suc (trainingCount s) + length rs]"
    by (subst upt_conv_Cons) simp_all
  from ih have i1: "bs = [Suc (trainingCount s)..<Suc (trainingCount s) + length rs]"
    and i2: "trainingCount s2 = Suc (trainingCount s) + length rs"
    and i3: "map (trainingObjs s2) bs = rs"
    by (auto simp del: upt_Suc)
  have "as = [trainingCount s..<trainingCount s + length (r # rs)]"
    unfolding u e i1[symmetric] ..
  moreover have "trainingCount s' = trainingCount s + length (r # rs)"
    unfolding e i2 by simp
  moreover have "map (trainingObjs s') as = r # rs"
    unfolding e using r i3 by simp
  ultimately show ?case
    using ih f unfolding e by (simp del: upt_Suc)
qed

lemma getGPT4Responses_store_values:
  assumes "getGPT4Responses_store api s data = (s', out)"
  shows "map (responseObjs s') out = getGPT4Responses api (map (promptObjs s) data)"
    and "out = [responseCount s..<responseCount s']"
    and "promptObjs s' = promptObjs s"
proof -
  note n = newAll_newResponse[OF assms[unfolded getGPT4Responses_store_def]]
  from n show "map (responseObjs s') out = getGPT4Responses api (map (promptObjs s) data)"
    by blast
  from n show "out = [responseCount s..<responseCount s']" by simp
  from n show "promptObjs s' = promptObjs s" by blast
qed

lemma balanceDataset_store_values:
  "balanceDataset_store ar s data = (s', out) \<Longrightarrow>
   s' = s \<and> subseq out data \<and>
   map (responseObjs s) out = balanceDataset_fl ar (map (responseObjs s) data)"
  by (auto simp: balanceDataset_store_def balanceDataset_fl_def Let_def filter_map comp_def)

lemma convertToLLaMAFormat_store_values:
  assumes "convertToLLaMAFormat_store s data = Inr (s', out)"
  shows "convertToLLaMAFormat (map (responseObjs s) data) = Inr (map (trainingObjs s') out)"
    and "out = [trainingCount s..<trainingCount s']"
    and "promptObjs s' = promptObjs s" and "responseObjs s' = responseObjs s"
proof -
  from assms obtain ts where c: "convertToLLaMAFormat (map (responseObjs s) data) = Inr ts"
    and n: "newAll newTraining s ts = (s', out)"
    by (auto simp: convertToLLaMAFormat_store_def split: sum.splits)
  note t = newAll_newTraining[OF n]
  from t have "map (trainingObjs s') out = ts" by blast
  with c show "convertToLLaMAFormat (map (responseObjs s) data) = Inr (map (trainingObjs s') out)"
    by simp
  from t show "out = [trainingCount s..<trainingCount s']" by simp
  from t show "promptObjs s' = promptObjs s" and "responseObjs s' = responseObjs s"
    by blast+
qed

lemma augmentVariations_refs:
  "augmentVariations variation grid s = (s', out) \<Longrightarrow>
   out = [promptCount s..<promptCount s']"
proof (induction variation grid s arbitrary: s' out rule: augmentVariations.induct)
  case (1 variation s)
  then show ?case by simp
next
  case (2 variation temp maxTok grid s)
  show ?case
  proof (cases "variation temp maxTok")
    case None
    with 2 show ?thesis by simp
  next
    case (Some p)
    show ?thesis
    proof (cases "p = []")
      case True
      with 2 Some show ?thesis by simp
    next
      case False
      let ?r = "\<lparr> prompt = Some p, input' = None, output' = None \<rparr>"
      obtain s1 a where n: "newPrompt s ?r = (s1, a)" by (cases "newPrompt s ?r")
      obtain s2 bs where m: "augmentVariations variation grid s1 = (s2, bs)"
        by (cases "augmentVariations variation grid s1")
      from n have a: "a = promptCount s" and c1: "promptCount s1 = Suc (promptCount s)"
        by (auto simp: newPrompt_def)
      from "2.IH"(3)[OF Some False n[symmetric] m] have bs: "bs = [promptCount s1..<promptCount s2]" .
      have "unchanged s1 s2" using unchanged_augmentVariations[of s1 variation grid] m by simp
      then have le: "promptCount s1 \<le> promptCount s2" by (simp add: unchanged_def)
      from "2.prems" Some False n m have e: "s' = s2" "out = a # bs" by simp_all
      show ?thesis
        unfolding e a bs c1 using le[unfolded c1] by (simp add: upt_conv_Cons)
    qed
  qed
qed

lemma augmentData_from_refs:
  "augmentData_from variation i s data = (s', out) \<Longrightarrow>
   set out = set data \<union> {promptCount s..<promptCount s'} \<and> subseq data out"
proof (induction data arbitrary: i s s' out)
  case Nil
  then show ?case by simp
next
  case (Cons item items)
  let ?g = "List.product temperature maxTokens"
  obtain s1 vs where n: "augmentVariations (variation i) ?g s = (s1, vs)"
    by (cases "augmentVariations (variation i) ?g s")
  obtain s2 bs where m: "augmentData_from variation (Suc i) s1 items = (s2, bs)"
    by (cases "augmentData_from variation (Suc i) s1 items")
  from Cons.prems n m have e: "s' = s2" "out = item # vs @ bs" by simp_all
  from augmentVariations_refs[OF n] have vs: "vs = [promptCount s..<promptCount s1]" .
  from Cons.IH[OF m] have bs: "set bs = set items \<union> {promptCount s1..<promptCount s2}"
    and sb: "subseq items bs" by simp_all
  have l1: "promptCount s \<le> promptCount s1"
    using unchanged_augmentVariations[of s "variation i" ?g] n by (simp add: unchanged_def)
  have l2: "promptCount s1 \<le> promptCount s2"
    using unchanged_augmentData_from[of s1 variation "Suc i" items] m by (simp add: unchanged_def)
  have "set out = set (item # items) \<union> {promptCount s..<promptCount s'}"
    unfolding e vs using bs l1 l2 by auto
  moreover have "subseq (item # items) out"
    unfolding e using sb by (simp add: subseq_drop_many)
  ultimately show ?case by simp
qed

text \<open>
  C8, as amended. \<open>cleanData\<close> writes to the records it is given: it returns a sub-list of
  their references, it changes no record whose reference it does not return and no
  \<^verbatim>\<open>input\<close> or \<^verbatim>\<open>output\<close> field, and, the references being distinct, it overwrites
  the prompt of exactly the records it accepts with the cleaned text. Every later stage
  leaves every record that exists when it starts as it is: \<open>augmentData\<close> returns the
  references it was given and those of the variations it creates;
  \<open>getGPT4Responses\<close> and \<open>convertToLLaMAFormat\<close> return the references of the records
  they create; \<open>balanceDataset\<close> creates nothing and returns a sub-list of the references
  it was given.
\<close>

theorem pipeline_writes_only_in_cleanData:
  "(case cleanData_store pd h refs of
      (h', out) \<Rightarrow>
        set out \<subseteq> set refs \<and>
        (\<forall>a. a \<notin> set out \<longrightarrow> h' a = h a) \<and>
        (\<forall>a. input' (h' a) = input' (h a) \<and> output' (h' a) = output' (h a)) \<and>
        (distinct refs \<longrightarrow>
           out = filter (\<lambda>a. fst (cleanItem pd (h a))) refs \<and>
           (\<forall>a\<in>set out. h' a = (h a)\<lparr>prompt := map_option cleanText (prompt (h a))\<rparr>) \<and>
           map h' out = cleanData pd (map h refs))) \<and>
   (case augmentData_store variation s data of
      (s', out) \<Rightarrow>
        unchanged s s' \<and> subseq data out \<and>
        set out = set data \<union> {promptCount s..<promptCount s'}) \<and>
   (case getGPT4Responses_store api s data of
      (s', out) \<Rightarrow>
        unchanged s s' \<and> out = [responseCount s..<responseCount s'] \<and>
        map (responseObjs s') out = getGPT4Responses api (map (promptObjs s) data)) \<and>
   (case balanceDataset_store ar s data of
      (s', out) \<Rightarrow>
        s' = s \<and> subseq out data \<and>
        map (responseObjs s) out = balanceDataset_fl ar (map (responseObjs s) data)) \<and>
   (case convertToLLaMAFormat_store s data of
      Inl e \<Rightarrow> True
    | Inr (s', out) \<Rightarrow>
        unchanged s s' \<and> out = [trainingCount s..<trainingCount s'] \<and>
        convertToLLaMAFormat (map (responseObjs s) data) = Inr (map (trainingObjs s') out))"
proof (intro conjI)
  show "case cleanData_store pd h refs of
      (h', out) \<Rightarrow>
        set out \<subseteq> set refs \<and>
        (\<forall>a. a \<notin> set out \<longrightarrow> h' a = h a) \<and>
        (\<forall>a. input' (h' a) = input' (h a) \<and> output' (h' a) = output' (h a)) \<and>
        (distinct refs \<longrightarrow>
           out = filter (\<lambda>a. fst (cleanItem pd (h a))) refs \<and>
           (\<forall>a\<in>set out. h' a = (h a)\<lparr>prompt := map_option cleanText (prompt (h a))\<rparr>) \<and>
           map h' out = cleanData pd (map h refs))"
    by (rule cleanData_store_frame)
next
  obtain s' out where r: "augmentData_store variation s data = (s', out)"
    by (cases "augmentData_store variation s data")
  have "unchanged s s'"
    using unchanged_augmentData_from[of s variation 0 data] r
    by (simp add: augmentData_store_def)
  moreover have "set out = set data \<union> {promptCount s..<promptCount s'} \<and> subseq data out"
    using augmentData_from_refs[of variation 0 s data s' out] r
    by (simp add: augmentData_store_def)
  ultimately show "case augmentData_store variation s data of
      (s', out) \<Rightarrow>
        unchanged s s' \<and> subseq data out \<and>
        set out = set data \<union> {promptCount s..<promptCount s'}"
    unfolding r by simp
next
  obtain s' out where r: "getGPT4Responses_store api s data = (s', out)"
    by (cases "getGPT4Responses_store api s data")
  have "unchanged s s'"
    using unchanged_newAll[of newResponse s "getGPT4Responses api (map (promptObjs s) data)",
        OF unchanged_newResponse] r
    by (simp add: getGPT4Responses_store_def)
  with getGPT4Responses_store_values[OF r]
  show "case getGPT4Responses_store api s data of
      (s', out) \<Rightarrow>
        unchanged s s' \<and> out = [responseCount s..<responseCount s'] \<and>
        map (responseObjs s') out = getGPT4Responses api (map (promptObjs s) data)"
    unfolding r by simp
next
  obtain s' out where r: "balanceDataset_store ar s data = (s', out)"
    by (cases "balanceDataset_store ar s data")
  from balanceDataset_store_values[OF r]
  show "case balanceDataset_store ar s data of
      (s', out) \<Rightarrow>
        s' = s \<and> subseq out data \<and>
        map (responseObjs s) out = balanceDataset_fl ar (map (responseObjs s) data)"
    unfolding r by simp
next
  show "case convertToLLaMAFormat_store s data of
      Inl e \<Rightarrow> True
    | Inr (s', out) \<Rightarrow>
        unchanged s s' \<and> out = [trainingCount s..<trainingCount s'] \<and>
        convertToLLaMAFormat (map (responseObjs s) data) = Inr (map (trainingObjs s') out)"
  proof (cases "convertToLLaMAFormat_store s data")
    case (Inl e)
    then show ?thesis by simp
  next
    case (Inr p)
    obtain s' out where p: "p = (s', out)" by (cases p)
    note r = Inr[unfolded p]
    from r obtain ts where n: "newAll newTraining s ts = (s', out)"
      by (auto simp: convertToLLaMAFormat_store_def split: sum.splits)
    have "unchanged s s'"
      using unchanged_newAll[of newTraining s ts, OF unchanged_newTraining] n by simp
    with convertToLLaMAFormat_store_values[OF r] show ?thesis
      unfolding r by simp
  qed
qed

theorem pipeline_writes_only_in_cleanData_witness:
  "snd (cleanData_store noProcessedData example_store [0, 1]) = [0] \<and>
   fst (cleanData_store noProcessedData example_store [0, 1]) 0 = rawRecord ''hello world'' \<and>
   fst (cleanData_store noProcessedData example_store [0, 1]) 1 = example_store 1 \<and>
   map (fst (cleanData_store noProcessedData example_store [0, 1])) [0] =
     cleanData noProcessedData (map example_store [0, 1]) \<and>
   unchanged example_stores
     (fst (augmentData_store (\<lambda>i temp maxTok. Some (js ''a variation'')) example_stores [0, 1])) \<and>
   unchanged example_stores
     (fst (getGPT4Responses_store (\<lambda>k. Some (js ''answer'')) example_stores [0, 1])) \<and>
   fst (balanceDataset_store exact_arithmetic example_stores [0, 1]) = example_stores"
proof -
  obtain h' out where r: "cleanData_store noProcessedData example_store [0, 1] = (h', out)"
    by (cases "cleanData_store noProcessedData example_store [0, 1]")
  have k: "fst (cleanItem noProcessedData (example_store 0))"
    "\<not> fst (cleanItem noProcessedData (example_store 1))"
    "map_option cleanText (prompt (example_store 0)) = Some (js ''hello world'')"
    by (simp_all add: example_store_def clean_eval)
  have d: "distinct [0, 1::nat]" by simp
  note w = pipeline_writes_only_in_cleanData
    [where pd = noProcessedData and h = example_store and refs = "[0, 1]"
       and s = example_stores and data = "[0, 1]"
       and variation = "\<lambda>i temp maxTok. Some (js ''a variation'')"
       and api = "\<lambda>k. Some (js ''answer'')" and ar = exact_arithmetic]
  note t = w[THEN conjunct1, unfolded r prod.case]
  have fl: "filter (\<lambda>a. fst (cleanItem noProcessedData (example_store a))) [0, 1] = [0]"
    using k(1,2) by simp
  from t d have "out = filter (\<lambda>a. fst (cleanItem noProcessedData (example_store a))) [0, 1]"
    by blast
  with fl have out: "out = [0]" by simp
  from t have un: "\<forall>a. a \<notin> set out \<longrightarrow> h' a = example_store a"
    by blast
  from t d have wr: "\<forall>a\<in>set out. h' a =
      (example_store a)\<lparr>prompt := map_option cleanText (prompt (example_store a))\<rparr>"
    by blast
  from t d have v: "map h' out = cleanData noProcessedData (map example_store [0, 1])"
    by blast
  have "h' 0 = rawRecord ''hello world''"
    using wr out k(3) by (simp add: example_store_def rawRecord_def)
  moreover have "h' 1 = example_store 1"
    using un out by simp
  moreover have "unchanged example_stores
     (fst (augmentData_store (\<lambda>i temp maxTok. Some (js ''a variation'')) example_stores [0, 1]))"
    using w[THEN conjunct2, THEN conjunct1] by (simp add: case_prod_beta)
  moreover have "unchanged example_stores
     (fst (getGPT4Responses_store (\<lambda>k. Some (js ''answer'')) example_stores [0, 1]))"
    using w[THEN conjunct2, THEN conjunct2, THEN conjunct1] by (simp add: case_prod_beta)
  moreover have "fst (balanceDataset_store exact_arithmetic example_stores [0, 1]) = example_stores"
    using w[THEN conjunct2, THEN conjunct2, THEN conjunct2, THEN conjunct1]
    by (simp add: case_prod_beta)
  ultimately show ?thesis
    using out v unfolding r by simp
qed

text \<open>
  C8, as stated, fails: after \<open>cleanData\<close> the raw record at address 0 has another
  prompt than the one it was loaded with.
\<close>

theorem cleanData_mutates_raw_records_counterexample:
  "prompt (example_store 0) = Some (js ''  hello   world  '') \<and>
   prompt (fst (cleanData_store noProcessedData example_store [0, 1]) 0) = Some (js ''hello world'') \<and>
   fst (cleanData_store noProcessedData example_store [0, 1]) 0 \<noteq> example_store 0"
  by (simp add: example_store_def clean_eval)

end
